theory Spec2Isabelle
  imports Main "HOL-Library.Char_ord" "HOL-Library.List_Lexorder" "HOL-Library.Word"
begin

section \<open>JavaScript strings and values\<close>

text \<open>
  Strings of \<^verbatim>\<open>lib/rest-adapter.js\<close> are modelled as lists of code units below 256
  (\<^typ>\<open>string\<close>). The relational operators of JavaScript on two strings compare
  code unit by code unit, a proper prefix being smaller; this is the order \<open><\<close> of
  \<^typ>\<open>char list\<close> (lexicographic, characters ordered by their code).
\<close>

definition lower_char :: "char \<Rightarrow> char" where
  "lower_char c =
     (let n = (of_char c :: nat)
      in if (65 \<le> n \<and> n \<le> 90) \<or> (192 \<le> n \<and> n \<le> 222 \<and> n \<noteq> 215)
         then char_of (n + 32) else c)"

definition toLowerCase :: "string \<Rightarrow> string" where
  "toLowerCase s = map lower_char s"

text \<open>\<^verbatim>\<open>s.split('/')\<close>: never the empty array; \<^verbatim>\<open>''.split('/')\<close> is \<^verbatim>\<open>['']\<close>.\<close>

fun split_slash :: "string \<Rightarrow> string list" where
  "split_slash [] = [[]]"
| "split_slash (c # cs) =
     (if c = CHR ''/'' then [] # split_slash cs
      else (c # hd (split_slash cs)) # tl (split_slash cs))"

text \<open>\<^verbatim>\<open>s[0]\<close>: the first code unit, \<^verbatim>\<open>undefined\<close> (\<open>None\<close>) on the empty string.\<close>

definition char_at0 :: "string \<Rightarrow> char option" where
  "char_at0 s = (case s of [] \<Rightarrow> None | c # _ \<Rightarrow> Some c)"

text \<open>
  The values a name, a verb, a path or an option can hold: the primitives, and
  \<open>JObj\<close>, a plain object such as \<^verbatim>\<open>{}\<close> or \<^verbatim>\<open>{origin: true}\<close>: it has neither a
  \<^verbatim>\<open>length\<close> nor an indexed property and its string conversion is the one of
  \<^verbatim>\<open>Object.prototype\<close>. The numbers are the integers from 0 below \<open>2\<^sup>5\<^sup>3\<close>: each is
  a number of JavaScript exactly, and is rendered in decimal.
\<close>

datatype jsval = JUndefined | JNull | JBool bool | JNum "53 word" | JStr string | JObj

definition truthy :: "jsval \<Rightarrow> bool" where
  "truthy v =
     (case v of JUndefined \<Rightarrow> False | JNull \<Rightarrow> False | JBool b \<Rightarrow> b
      | JNum n \<Rightarrow> n \<noteq> 0 | JStr s \<Rightarrow> s \<noteq> [] | JObj \<Rightarrow> True)"

function decimal :: "nat \<Rightarrow> string" where
  "decimal n =
     (if n < 10 then [char_of (48 + n)]
      else decimal (n div 10) @ [char_of (48 + n mod 10)])"
  by pat_completeness auto
termination
  by (relation "measure id") auto

declare decimal.simps [simp del]

text \<open>\<^verbatim>\<open>String(v)\<close>, which is also what \<^verbatim>\<open>+\<close> makes of \<open>v\<close> beside a string.\<close>

definition to_str :: "jsval \<Rightarrow> string" where
  "to_str v =
     (case v of JUndefined \<Rightarrow> ''undefined'' | JNull \<Rightarrow> ''null''
      | JBool b \<Rightarrow> (if b then ''true'' else ''false'')
      | JNum n \<Rightarrow> decimal (unat n) | JStr s \<Rightarrow> s | JObj \<Rightarrow> ''[object Object]'')"

text \<open>\<^verbatim>\<open>typeof v === 'string'\<close>\<close>

definition is_string :: "jsval \<Rightarrow> bool" where
  "is_string v = (case v of JStr _ \<Rightarrow> True | _ \<Rightarrow> False)"

text \<open>
  What the code raises: a \<^verbatim>\<open>TypeError\<close> of the language (a property read off
  \<^verbatim>\<open>undefined\<close>, a call of something that is no function), and the \<^verbatim>\<open>Error\<close> that
  \<^verbatim>\<open>createHandler\<close> throws for the option \<^verbatim>\<open>cors\<close>.
\<close>

datatype error = TypeError | ConfigError

section \<open>Routes and the route comparator\<close>

record ('v, 'p) route =
  verb :: 'v
  path :: 'p

record ('p, 'm) route_entry =
  route :: "(string, 'p) route"
  entry_method :: 'm

text \<open>
  The body of the \<^verbatim>\<open>for\<close> loop of \<^verbatim>\<open>sortRoutes\<close>, from index \<open>i\<close>:
  \<open>Some r\<close> is a \<^verbatim>\<open>return r\<close> inside the loop, \<open>None\<close> is the loop running to
  its end.
\<close>

function sortRoutes_loop :: "string list \<Rightarrow> string list \<Rightarrow> nat \<Rightarrow> nat \<Rightarrow> int option" where
  "sortRoutes_loop p1 p2 len i =
     (if i < len then
        (if p1 ! i = [] \<and> p2 ! i \<noteq> [] then Some 1
         else if p1 ! i \<noteq> [] \<and> p2 ! i = [] then Some (- 1)
         else if char_at0 (p1 ! i) = Some CHR '':'' \<and> char_at0 (p2 ! i) \<noteq> Some CHR '':'' then Some 1
         else if char_at0 (p1 ! i) \<noteq> Some CHR '':'' \<and> char_at0 (p2 ! i) = Some CHR '':'' then Some (- 1)
         else if p2 ! i < p1 ! i then Some 1
         else if p1 ! i < p2 ! i then Some (- 1)
         else sortRoutes_loop p1 p2 len (i + 1))
      else None)"
  by pat_completeness auto
termination
  by (relation "measure (\<lambda>(p1, p2, len, i). len - i)") auto

declare sortRoutes_loop.simps [simp del]

definition normalize_verb :: "string \<Rightarrow> string" where
  "normalize_verb v = (let v' = toLowerCase v in if v' = ''del'' then ''delete'' else v')"

text \<open>
  \<^verbatim>\<open>sortRoutes(r1, r2)\<close> on route entries whose verb and path are strings, as its
  documentation comment describes them; on a path that is not a string
  \<^verbatim>\<open>a.path.split\<close> raises a \<^verbatim>\<open>TypeError\<close>, and such entries are outside this type.
  The field \<open>entry_method\<close> is the \<^verbatim>\<open>method\<close> of the entry.
\<close>

definition sortRoutes :: "(string, 'm) route_entry \<Rightarrow> (string, 'm) route_entry \<Rightarrow> int" where
  "sortRoutes r1 r2 =
     (let a = route r1; b = route r2;
          verb1 = normalize_verb (verb a);
          verb2 = normalize_verb (verb b)
      in if verb2 < verb1 then - 1
         else if verb1 < verb2 then 1
         else
           (let p1 = split_slash (path a);
                p2 = split_slash (path b);
                len = min (length p1) (length p2)
            in case sortRoutes_loop p1 p2 len 0 of
                 Some r \<Rightarrow> r
               | None \<Rightarrow> int (length p2) - int (length p1)))"

subsection \<open>The ordering rules as the specification words them\<close>

text \<open>
  Rule 1: verbs, lowercased (every capital letter, of \<^verbatim>\<open>A-Z\<close> and of the accented
  ones up to code 222, replaced by its small letter) and with \<^verbatim>\<open>del\<close> read as
  \<^verbatim>\<open>delete\<close>, lexicographically descending. Rule 2: segment by segment
  up to the shorter length; an empty segment after a non-empty one, a placeholder after
  a literal, otherwise lexicographically ascending. Rule 3: more segments first.
  A negative number means that the first route ranks before the second.
\<close>

definition capital_letters :: string where
  "capital_letters =
     ''ABCDEFGHIJKLMNOPQRSTUVWXYZ'' @ map char_of ([192..<215] @ [216..<223] :: nat list)"

definition small_letters :: string where
  "small_letters =
     ''abcdefghijklmnopqrstuvwxyz'' @ map char_of ([224..<247] @ [248..<255] :: nat list)"

definition lowercased :: "string \<Rightarrow> string" where
  "lowercased v =
     map (\<lambda>c. case map_of (zip capital_letters small_letters) c of
                Some l \<Rightarrow> l | None \<Rightarrow> c) v"

definition ranked_verb :: "string \<Rightarrow> string" where
  "ranked_verb v = (if lowercased v = ''del'' then ''delete'' else lowercased v)"

definition rule_verb :: "string \<Rightarrow> string \<Rightarrow> int" where
  "rule_verb v1 v2 =
     (if ranked_verb v2 < ranked_verb v1 then - 1
      else if ranked_verb v1 < ranked_verb v2 then 1 else 0)"

definition is_placeholder :: "string \<Rightarrow> bool" where
  "is_placeholder s = (case s of [] \<Rightarrow> False | c # _ \<Rightarrow> c = CHR '':'')"

definition rule_segment :: "string \<Rightarrow> string \<Rightarrow> int" where
  "rule_segment s1 s2 =
     (if s1 = [] \<and> s2 \<noteq> [] then 1
      else if s1 \<noteq> [] \<and> s2 = [] then - 1
      else if is_placeholder s1 \<and> \<not> is_placeholder s2 then 1
      else if \<not> is_placeholder s1 \<and> is_placeholder s2 then - 1
      else if s2 < s1 then 1
      else if s1 < s2 then - 1
      else 0)"

fun first_discriminating :: "int list \<Rightarrow> int" where
  "first_discriminating [] = 0"
| "first_discriminating (r # rs) = (if r \<noteq> 0 then r else first_discriminating rs)"

definition rule_segments :: "string list \<Rightarrow> string list \<Rightarrow> int" where
  "rule_segments p1 p2 = first_discriminating (map2 rule_segment p1 p2)"

definition rule_length :: "string list \<Rightarrow> string list \<Rightarrow> int" where
  "rule_length p1 p2 =
     (if length p2 < length p1 then - 1 else if length p1 < length p2 then 1 else 0)"

definition ranking_rules :: "(string, string) route \<Rightarrow> (string, string) route \<Rightarrow> int" where
  "ranking_rules a b =
     first_discriminating
       [rule_verb (verb a) (verb b),
        rule_segments (split_slash (path a)) (split_slash (path b)),
        rule_length (split_slash (path a)) (split_slash (path b))]"

text \<open>Rules 2 and 3 read along the two segment lists at once.\<close>

fun compare_segments :: "string list \<Rightarrow> string list \<Rightarrow> int" where
  "compare_segments [] ys = int (length ys)"
| "compare_segments (x # xs) [] = - int (length (x # xs))"
| "compare_segments (x # xs) (y # ys) =
     (if rule_segment x y \<noteq> 0 then rule_segment x y else compare_segments xs ys)"


subsection \<open>Sorting the registrations of a class\<close>

text \<open>
  \<^verbatim>\<open>methods.sort(sortRoutes)\<close>. The sort of an array is stable (ECMAScript 2019):
  elements that compare as equal keep their relative order. Insertion from the right,
  each element going before the first one it does not come after, is such a sort.
\<close>

fun array_insert :: "('a \<Rightarrow> 'a \<Rightarrow> int) \<Rightarrow> 'a \<Rightarrow> 'a list \<Rightarrow> 'a list" where
  "array_insert cmp x [] = [x]"
| "array_insert cmp x (y # ys) =
     (if cmp x y \<le> 0 then x # y # ys else y # array_insert cmp x ys)"

fun array_sort :: "('a \<Rightarrow> 'a \<Rightarrow> int) \<Rightarrow> 'a list \<Rightarrow> 'a list" where
  "array_sort cmp [] = []"
| "array_sort cmp (x # xs) = array_insert cmp x (array_sort cmp xs)"

section \<open>Joining paths\<close>

text \<open>\<^verbatim>\<open>left[left.length - 1]\<close> and \<^verbatim>\<open>right[0]\<close>; \<open>None\<close> is \<^verbatim>\<open>undefined\<close>.\<close>

definition last_unit :: "jsval \<Rightarrow> char option" where
  "last_unit v = (case v of JStr s \<Rightarrow> (if s = [] then None else Some (last s)) | _ \<Rightarrow> None)"

definition first_unit :: "jsval \<Rightarrow> char option" where
  "first_unit v = (case v of JStr s \<Rightarrow> char_at0 s | _ \<Rightarrow> None)"

text \<open>
  \<^verbatim>\<open>a + b\<close> where each operand is a string of one code unit or \<^verbatim>\<open>undefined\<close>:
  a string as soon as one operand is one, the number \<^verbatim>\<open>NaN\<close> (\<open>None\<close>) otherwise.
\<close>

definition glue_of :: "char option \<Rightarrow> char option \<Rightarrow> string option" where
  "glue_of a b =
     (case (a, b) of
        (None, None) \<Rightarrow> None
      | (Some x, None) \<Rightarrow> Some (x # ''undefined'')
      | (None, Some y) \<Rightarrow> Some (''undefined'' @ [y])
      | (Some x, Some y) \<Rightarrow> Some [x, y])"

definition unit_at :: "string option \<Rightarrow> nat \<Rightarrow> char option" where
  "unit_at g i =
     (case g of None \<Rightarrow> None | Some s \<Rightarrow> (if i < length s then Some (s ! i) else None))"

text \<open>
  \<^verbatim>\<open>joinPaths(left, right)\<close>. Past the two guards both operands are truthy, and each
  \<^verbatim>\<open>+\<close> of the three results has a string operand (\<open>joinPaths_concat_left_string\<close>
  shows it for \<^verbatim>\<open>left + right\<close>), hence concatenates string conversions;
  \<^verbatim>\<open>right.slice(1)\<close> is reached with \<open>right\<close> a string only.
\<close>

definition joinPaths :: "jsval \<Rightarrow> jsval \<Rightarrow> jsval" where
  "joinPaths left right =
     (if \<not> truthy left then right
      else if \<not> truthy right \<or> right = JStr ''/'' then left
      else
        (let glue = glue_of (last_unit left) (first_unit right)
         in if glue = Some ''//'' then JStr (to_str left @ drop 1 (to_str right))
            else if unit_at glue 0 = Some CHR ''/'' \<or> unit_at glue 1 = Some CHR ''/''
              then JStr (to_str left @ to_str right)
            else JStr (to_str left @ ''/'' @ to_str right)))"

section \<open>Path normalization\<close>

text \<open>
  \<^verbatim>\<open>path.replace(/[^\/]+/g, f)\<close>: every maximal run of code units other than
  \<^verbatim>\<open>/\<close> is replaced by \<open>f\<close> of it; \<open>run\<close> is the run read so far.
\<close>

fun replace_runs :: "(string \<Rightarrow> string) \<Rightarrow> string \<Rightarrow> string \<Rightarrow> string" where
  "replace_runs f run [] = (if run = [] then [] else f run)"
| "replace_runs f run (c # cs) =
     (if c = CHR ''/'' then (if run = [] then [] else f run) @ c # replace_runs f [] cs
      else replace_runs f (run @ [c]) cs)"

text \<open>
  \<^verbatim>\<open>normalizeHttpPath(path)\<close>. The package \<^verbatim>\<open>inflection\<close> is a dependency, not part
  of the repository: \<open>transform\<close> stands for
  \<^verbatim>\<open>inflection.transform(match, ['underscore', 'dasherize'])\<close>. A \<^verbatim>\<open>return\<close> without a
  value yields \<^verbatim>\<open>undefined\<close>.
\<close>

definition normalizeHttpPath :: "(string \<Rightarrow> string) \<Rightarrow> jsval \<Rightarrow> jsval" where
  "normalizeHttpPath transform p =
     (case p of
        JStr s \<Rightarrow>
          JStr (replace_runs
                  (\<lambda>match. if CHR '':'' \<in> set match then match else transform match) [] s)
      | _ \<Rightarrow> JUndefined)"

definition untransformedPath :: "jsval \<Rightarrow> jsval" where
  "untransformedPath p = p"

text \<open>
  Modelled from the spec: the fixed two-step transform (word-delimiter insertion, then
  dash-casing) of the package \<^verbatim>\<open>inflection\<close>, which is not under the sources. On a
  string without \<^verbatim>\<open>:\<close>, \<^verbatim>\<open>underscore\<close> puts \<^verbatim>\<open>_\<close> before every letter of
  \<^verbatim>\<open>A-Z\<close>, drops one leading \<^verbatim>\<open>_\<close> and lowercases; \<^verbatim>\<open>dasherize\<close> turns every
  space and \<^verbatim>\<open>_\<close> into \<^verbatim>\<open>-\<close>.
\<close>

definition inflection_underscore :: "string \<Rightarrow> string" where
  "inflection_underscore s =
     (let u = concat (map (\<lambda>c. if CHR ''A'' \<le> c \<and> c \<le> CHR ''Z'' then [CHR ''_'', c] else [c]) s)
      in toLowerCase (if u \<noteq> [] \<and> hd u = CHR ''_'' then tl u else u))"

definition inflection_dasherize :: "string \<Rightarrow> string" where
  "inflection_dasherize s =
     map (\<lambda>c. if c = CHR '' '' \<or> c = CHR ''_'' then CHR ''-'' else c) s"

definition inflection_transform :: "string \<Rightarrow> string" where
  "inflection_transform s = inflection_dasherize (inflection_underscore s)"

text \<open>The reading of the specification: split on \<^verbatim>\<open>/\<close>, rewrite the segments, join.\<close>

fun join_slash :: "string list \<Rightarrow> string" where
  "join_slash [] = []"
| "join_slash [s] = s"
| "join_slash (s # t # ss) = s @ CHR ''/'' # join_slash (t # ss)"

definition normalize_segment :: "(string \<Rightarrow> string) \<Rightarrow> string \<Rightarrow> string" where
  "normalize_segment transform seg =
     (if seg = [] then [] else if CHR '':'' \<in> set seg then seg else transform seg)"

section \<open>Route derivation\<close>

record rest_options =
  opt_normalizeHttpPath :: jsval

text \<open>\<^verbatim>\<open>obj.http\<close>: absent, one route object, or an array of route objects.\<close>

datatype http_meta =
  NoHttp | HttpObject "(jsval, jsval) route" | HttpArray "(jsval, jsval) route list"

text \<open>
  What \<^verbatim>\<open>getRoutes\<close> reads of a shared class or shared method \<open>obj\<close>. The field
  \<open>sharedClass\<close> is \<open>None\<close> when \<^verbatim>\<open>obj.sharedClass\<close> is \<^verbatim>\<open>undefined\<close> and otherwise
  holds the \<^verbatim>\<open>options\<close> of that class; an options object that is \<^verbatim>\<open>undefined\<close> is
  \<open>None\<close>.
\<close>

record entity =
  name :: jsval
  http :: http_meta
  options :: "rest_options option"
  sharedClass :: "rest_options option option"

text \<open>
  The variable \<^verbatim>\<open>normalize\<close> of \<^verbatim>\<open>getRoutes\<close>: the option of the class
  (\<^verbatim>\<open>obj.sharedClass || obj\<close>), and the option of the adapter when that one is
  \<^verbatim>\<open>undefined\<close>; then the choice of \<^verbatim>\<open>toPath\<close>.
\<close>

definition effective_normalize :: "'a entity_scheme \<Rightarrow> rest_options option \<Rightarrow> jsval" where
  "effective_normalize obj adapterOptions =
     (let classOptions = (case sharedClass obj of Some opts \<Rightarrow> opts | None \<Rightarrow> options obj);
          normalize = (case classOptions of None \<Rightarrow> JUndefined
                       | Some co \<Rightarrow> opt_normalizeHttpPath co)
      in if normalize = JUndefined
         then (case adapterOptions of Some ao \<Rightarrow> opt_normalizeHttpPath ao | None \<Rightarrow> normalize)
         else normalize)"

definition select_toPath ::
  "(string \<Rightarrow> string) \<Rightarrow> 'a entity_scheme \<Rightarrow> rest_options option \<Rightarrow> jsval \<Rightarrow> jsval" where
  "select_toPath transform obj adapterOptions =
     (if truthy (effective_normalize obj adapterOptions) then normalizeHttpPath transform
      else untransformedPath)"

text \<open>
  \<^verbatim>\<open>getRoutes(obj, options)\<close>. The source patches the declared route objects in place
  and returns them; the model returns the patched routes.
\<close>

definition getRoutes ::
  "(string \<Rightarrow> string) \<Rightarrow> 'a entity_scheme \<Rightarrow> rest_options option
     \<Rightarrow> (string, jsval) route list" where
  "getRoutes transform obj adapterOptions =
     (let routes = (case http obj of NoHttp \<Rightarrow> None | HttpObject r \<Rightarrow> Some [r]
                    | HttpArray rs \<Rightarrow> Some rs);
          toPath = select_toPath transform obj adapterOptions
      in case routes of
           Some rs \<Rightarrow>
             map (\<lambda>r. \<lparr>verb = toLowerCase
                                (to_str (if truthy (verb r) then verb r else JStr ''all'')),
                       path = toPath (if truthy (path r) then path r
                                      else JStr (''/'' @ to_str (name obj)))\<rparr>) rs
         | None \<Rightarrow>
             if name obj = JStr ''sharedCtor''
             then [\<lparr>verb = ''all'', path = JStr ''/prototype''\<rparr>]
             else [\<lparr>verb = ''all'',
                    path = (if truthy (name obj)
                            then toPath (JStr (''/'' @ to_str (name obj)))
                            else JStr [])\<rparr>])"

section \<open>REST classes and methods\<close>

record shared_method = entity +
  isStatic :: bool
  isSharedCtor :: bool
  stringName :: string

record shared_class = entity +
  sharedCtor :: "shared_method option"
  sc_methods :: "shared_method list"

record ('p, 'm) rest_method =
  fullName :: string
  routes :: "(string, 'p) route list"
  sharedMethod :: 'm

record ('p, 'm) rest_class =
  class_routes :: "(string, 'p) route list"
  ctor :: "('p, 'm) rest_method option"
  methods :: "('p, 'm) rest_method list"

text \<open>
  \<^verbatim>\<open>new RestMethod(restClass, sharedMethod)\<close>, given the \<^verbatim>\<open>options\<close> and the
  \<^verbatim>\<open>ctor\<close> of \<open>restClass\<close> at the time of the call.
\<close>

definition RestMethod ::
  "(string \<Rightarrow> string) \<Rightarrow> rest_options option \<Rightarrow> (jsval, shared_method) rest_method option
     \<Rightarrow> shared_method \<Rightarrow> (jsval, shared_method) rest_method" where
  "RestMethod transform restClass_options restClass_ctor sm =
     (let methodRoutes = getRoutes transform sm restClass_options
      in \<lparr>fullName = stringName sm,
          routes =
            (case restClass_ctor of
               None \<Rightarrow> methodRoutes
             | Some c \<Rightarrow>
                 if isStatic sm then methodRoutes
                 else concat (map (\<lambda>route.
                        map (\<lambda>ctorRoute.
                               route\<lparr>path := joinPaths (path ctorRoute) (path route)\<rparr>)
                            (routes c)) methodRoutes)),
          sharedMethod = sm\<rparr>)"

text \<open>
  \<^verbatim>\<open>new RestClass(sharedClass, adapterOptions)\<close>: the constructor's own
  \<^verbatim>\<open>RestMethod\<close> is built while \<^verbatim>\<open>this.ctor\<close> is still \<^verbatim>\<open>undefined\<close>.
\<close>

definition RestClass ::
  "(string \<Rightarrow> string) \<Rightarrow> shared_class \<Rightarrow> rest_options option
     \<Rightarrow> (jsval, shared_method) rest_class" where
  "RestClass transform sc adapterOptions =
     (let c = map_option (RestMethod transform adapterOptions None) (sharedCtor sc)
      in \<lparr>class_routes = getRoutes transform sc adapterOptions,
          ctor = c,
          methods = map (RestMethod transform adapterOptions c)
                        (filter (\<lambda>sm. \<not> isSharedCtor sm) (sc_methods sc))\<rparr>)"

text \<open>
  \<^verbatim>\<open>RestMethod.prototype.getPath\<close> and \<^verbatim>\<open>RestClass.prototype.getPath\<close>:
  \<^verbatim>\<open>this.routes[0].path\<close>, a \<^verbatim>\<open>TypeError\<close> when there is no first route.
\<close>

definition RestMethod_getPath :: "('p, 'm) rest_method \<Rightarrow> error + 'p" where
  "RestMethod_getPath this = (case routes this of [] \<Rightarrow> Inl TypeError | r # _ \<Rightarrow> Inr (path r))"

definition RestClass_getPath :: "('p, 'm) rest_class \<Rightarrow> error + 'p" where
  "RestClass_getPath this =
     (case class_routes this of [] \<Rightarrow> Inl TypeError | r # _ \<Rightarrow> Inr (path r))"

section \<open>The name index\<close>

text \<open>
  The cache is a plain object: reading a key it does not own falls through to
  \<^verbatim>\<open>Object.prototype\<close>, whose properties are truthy and are not methods. Full names
  have the form \<^verbatim>\<open>Class.method\<close>, so none of them is \<^verbatim>\<open>__proto__\<close>.
\<close>

datatype 'a property = Missing | Inherited | Own 'a

definition object_prototype_keys :: "string list" where
  "object_prototype_keys =
     [''constructor'', ''__proto__'', ''hasOwnProperty'', ''isPrototypeOf'',
      ''propertyIsEnumerable'', ''toLocaleString'', ''toString'', ''valueOf'',
      ''__defineGetter__'', ''__defineSetter__'', ''__lookupGetter__'', ''__lookupSetter__'']"

definition get_property :: "(string \<rightharpoonup> 'a) \<Rightarrow> string \<Rightarrow> 'a property" where
  "get_property obj k =
     (case obj k of Some v \<Rightarrow> Own v
      | None \<Rightarrow> if List.member object_prototype_keys k then Inherited else Missing)"

text \<open>\<^verbatim>\<open>_createRestMethodByNameCache()\<close>, on what \<^verbatim>\<open>this.getClasses()\<close> returns.\<close>

definition createRestMethodByNameCache ::
  "('p, 'm) rest_class list \<Rightarrow> (string \<rightharpoonup> ('p, 'm) rest_method)" where
  "createRestMethodByNameCache classes =
     fold (\<lambda>restClass m. fold (\<lambda>restMethod m'. m'(fullName restMethod \<mapsto> restMethod))
                               (methods restClass) m)
          classes Map.empty"

text \<open>
  The adapter's cache slot; \<open>rebuilds\<close> is not in the source: it counts the calls of
  \<^verbatim>\<open>_createRestMethodByNameCache\<close>, so that their number can be stated.
\<close>

record ('p, 'm) adapter =
  cachedRestMethodsByName :: "(string \<rightharpoonup> ('p, 'm) rest_method) option"
  rebuilds :: nat

text \<open>
  \<^verbatim>\<open>getRestMethodByName(name)\<close>, given what \<^verbatim>\<open>this.getClasses()\<close> returns now and the
  live \<^verbatim>\<open>isMethodEnabled\<close> of the shared classes. Reading \<^verbatim>\<open>sharedMethod.sharedClass\<close>
  off an inherited property raises a \<^verbatim>\<open>TypeError\<close>.
\<close>

definition getRestMethodByName ::
  "('p, 'm) rest_class list \<Rightarrow> ('m \<Rightarrow> bool) \<Rightarrow> string \<Rightarrow> ('p, 'm) adapter
     \<Rightarrow> (error + ('p, 'm) rest_method option) \<times> ('p, 'm) adapter" where
  "getRestMethodByName classes isMethodEnabled nm this =
     (let ret = (case cachedRestMethodsByName this of
                   Some cache \<Rightarrow> get_property cache nm | None \<Rightarrow> Missing);
          (ret', this') =
            (case ret of
               Missing \<Rightarrow>
                 (get_property (createRestMethodByNameCache classes) nm,
                  this\<lparr>cachedRestMethodsByName := Some (createRestMethodByNameCache classes),
                       rebuilds := rebuilds this + 1\<rparr>)
             | _ \<Rightarrow> (ret, this))
      in case ret' of
           Missing \<Rightarrow> (Inr None, this')
         | Inherited \<Rightarrow> (Inl TypeError, this')
         | Own m \<Rightarrow> if \<not> isMethodEnabled (sharedMethod m) then (Inr None, this')
                    else (Inr (Some m), this'))"

section \<open>The invocation pipeline\<close>

record ('e, 'i) http_context =
  sharedCtorError :: "'e option"
  instance_slot :: "'i option"

text \<open>
  A stage takes the context and calls back once, with an error (\<open>Some e\<close>) or
  without; it may have changed the context. The hooks, \<^verbatim>\<open>invokeMethodInContext\<close> and
  \<^verbatim>\<open>ctx.done\<close> belong to other modules and are parameters.
\<close>

type_synonym ('e, 'i, 'x) stage_fn =
  "('e, 'i, 'x) http_context_scheme \<Rightarrow> 'e option \<times> ('e, 'i, 'x) http_context_scheme"

datatype stage = InvokeRestBefore | InvokeMethodInContext | InvokeRestAfter | CtxDone

record ('e, 'i, 'x) rest_hooks =
  before :: "('e, 'i, 'x) stage_fn option"
  after :: "('e, 'i, 'x) stage_fn option"

record ('e, 'i, 'x) remotes =
  invokeMethodInContext :: "('e, 'i, 'x) stage_fn"
  ctx_done :: "('e, 'i, 'x) stage_fn"

text \<open>
  The outcome of handling a request: the stages entered, each with the context it was
  given, the error handed to \<^verbatim>\<open>next\<close> if any, and the context at the end.
\<close>

type_synonym ('e, 'i, 'x) outcome =
  "(stage \<times> ('e, 'i, 'x) http_context_scheme) list \<times> 'e option \<times> ('e, 'i, 'x) http_context_scheme"

text \<open>\<^verbatim>\<open>async.series(steps, callback)\<close>: in order, stopping at the first error.\<close>

fun series ::
  "(stage \<times> ('e, 'i, 'x) stage_fn) list \<Rightarrow> ('e, 'i, 'x) http_context_scheme
     \<Rightarrow> ('e, 'i, 'x) outcome" where
  "series [] ctx = ([], None, ctx)"
| "series ((s, f) # steps) ctx =
     (case f ctx of
        (Some e, ctx') \<Rightarrow> ([(s, ctx)], Some e, ctx')
      | (None, ctx') \<Rightarrow>
          (case series steps ctx' of (entered, r, ctx'') \<Rightarrow> ((s, ctx) # entered, r, ctx'')))"

text \<open>\<^verbatim>\<open>_invokeMethod(ctx, method, next)\<close>, reading \<^verbatim>\<open>method.rest\<close>.\<close>

definition invokeMethod ::
  "('e, 'i, 'x) remotes \<Rightarrow> ('e, 'i, 'x) http_context_scheme \<Rightarrow> ('e, 'i, 'x) rest_hooks
     \<Rightarrow> ('e, 'i, 'x) outcome" where
  "invokeMethod rmts ctx method_rest =
     (let steps =
            (case before method_rest of Some b \<Rightarrow> [(InvokeRestBefore, b)] | None \<Rightarrow> [])
            @ [(InvokeMethodInContext, invokeMethodInContext rmts)]
            @ (case after method_rest of Some a \<Rightarrow> [(InvokeRestAfter, a)] | None \<Rightarrow> [])
      in case series steps ctx of
           (entered, Some err, ctx') \<Rightarrow> (entered, Some err, ctx')
         | (entered, None, ctx') \<Rightarrow>
             (case ctx_done rmts ctx' of
                (r, ctx'') \<Rightarrow> (entered @ [(CtxDone, ctx')], r, ctx'')))"

text \<open>
  \<^verbatim>\<open>restStaticMethodHandler\<close> and \<^verbatim>\<open>restPrototypeMethodHandler\<close>, on the context
  that \<^verbatim>\<open>new Context\<close> made; for the latter, \<open>(err, inst)\<close> is what the invocation of
  the shared constructor calls back with.
\<close>

definition restStaticMethodHandler ::
  "('e, 'i, 'x) remotes \<Rightarrow> ('e, 'i, 'x) rest_hooks \<Rightarrow> ('e, 'i, 'x) http_context_scheme
     \<Rightarrow> ('e, 'i, 'x) outcome" where
  "restStaticMethodHandler rmts method_rest ctx = invokeMethod rmts ctx method_rest"


section \<open>Building the handler\<close>

text \<open>
  \<^verbatim>\<open>sortRoutes\<close> on entries whose path may be any value: the paths are read only
  once the verbs tie, and \<^verbatim>\<open>a.path.split\<close> raises a \<^verbatim>\<open>TypeError\<close> for a path
  that is not a string. Where both paths are strings the result is the one of
  \<open>sortRoutes\<close> on them.
\<close>

definition typed_entry :: "(jsval, 'm) route_entry \<Rightarrow> (string, 'm) route_entry" where
  "typed_entry r =
     \<lparr>route = \<lparr>verb = verb (route r),
                path = (case path (route r) of JStr s \<Rightarrow> s | _ \<Rightarrow> [])\<rparr>,
      entry_method = entry_method r\<rparr>"

definition sortRoutes_any ::
  "(jsval, 'm) route_entry \<Rightarrow> (jsval, 'm) route_entry \<Rightarrow> error + int" where
  "sortRoutes_any r1 r2 =
     (let verb1 = normalize_verb (verb (route r1));
          verb2 = normalize_verb (verb (route r2))
      in if verb2 < verb1 then Inr (- 1)
         else if verb1 < verb2 then Inr 1
         else if is_string (path (route r1)) \<and> is_string (path (route r2))
           then Inr (sortRoutes (typed_entry r1) (typed_entry r2))
         else Inl TypeError)"

text \<open>
  \<^verbatim>\<open>methods.sort(sortRoutes)\<close> with a comparator that may throw: the first throw
  ends the sort. Which pairs are compared is the engine's choice; whether a comparison
  throws is not: an entry is compared with a neighbour of its final position, so the
  sort throws exactly when two entries have the same normalized verb and one of them
  a path that is not a string, and otherwise the result is the stable sort.
\<close>

fun array_insert_throwing ::
  "('a \<Rightarrow> 'a \<Rightarrow> error + int) \<Rightarrow> 'a \<Rightarrow> 'a list \<Rightarrow> error + 'a list" where
  "array_insert_throwing cmp x [] = Inr [x]"
| "array_insert_throwing cmp x (y # ys) =
     (case cmp x y of
        Inl e \<Rightarrow> Inl e
      | Inr c \<Rightarrow>
          if c \<le> 0 then Inr (x # y # ys)
          else (case array_insert_throwing cmp x ys of
                  Inl e \<Rightarrow> Inl e | Inr zs \<Rightarrow> Inr (y # zs)))"

fun array_sort_throwing ::
  "('a \<Rightarrow> 'a \<Rightarrow> error + int) \<Rightarrow> 'a list \<Rightarrow> error + 'a list" where
  "array_sort_throwing cmp [] = Inr []"
| "array_sort_throwing cmp (x # xs) =
     (case array_sort_throwing cmp xs of
        Inl e \<Rightarrow> Inl e | Inr ys \<Rightarrow> array_insert_throwing cmp x ys)"

text \<open>\<^verbatim>\<open>forEach\<close> with a callback that may throw: in order, up to the first throw.\<close>

fun forEach_throwing :: "('a \<Rightarrow> error + 'b) \<Rightarrow> 'a list \<Rightarrow> error + 'b list" where
  "forEach_throwing f [] = Inr []"
| "forEach_throwing f (x # xs) =
     (case f x of
        Inl e \<Rightarrow> Inl e
      | Inr y \<Rightarrow> (case forEach_throwing f xs of Inl e \<Rightarrow> Inl e | Inr ys \<Rightarrow> Inr (y # ys)))"

text \<open>
  \<^verbatim>\<open>_registerMethodRouteHandlers(router, sharedMethod, route)\<close>. The router belongs
  to the package \<^verbatim>\<open>express\<close>: \<open>router_has v\<close> says that \<^verbatim>\<open>router[v]\<close> is a
  method, which then takes the registration; calling \<^verbatim>\<open>router[v]\<close> otherwise is a
  \<^verbatim>\<open>TypeError\<close>. The result is the entry as registered, under the verb used.
\<close>

definition registerMethodRouteHandlers ::
  "(string \<Rightarrow> bool) \<Rightarrow> (jsval, 'm) route_entry \<Rightarrow> error + (jsval, 'm) route_entry" where
  "registerMethodRouteHandlers router_has m =
     (let verb0 = verb (route m);
          verb1 = (if verb0 = ''del'' then ''delete'' else verb0)
      in if router_has verb1
         then Inr \<lparr>route = \<lparr>verb = verb1, path = path (route m)\<rparr>, entry_method = entry_method m\<rparr>
         else Inl TypeError)"

record remotes_options =
  cors :: jsval
  urlencoded :: jsval

text \<open>
  What \<^verbatim>\<open>createHandler\<close> builds for one class: the registrations of its router in
  their order, and the paths the router is mounted on. The other calls into
  \<^verbatim>\<open>express\<close> and \<^verbatim>\<open>body-parser\<close> (making routers, the body parsers, the
  not-found handlers, the error handler, mounting) are taken to return normally and
  are left out.
\<close>

record 'm class_router =
  registered :: "(jsval, 'm) route_entry list"
  mounted_on :: "jsval list"

definition class_entries :: "('p, 'm) rest_class \<Rightarrow> ('p, 'm) route_entry list" where
  "class_entries restClass =
     concat (map (\<lambda>restMethod.
               map (\<lambda>r. \<lparr>route = r, entry_method = sharedMethod restMethod\<rparr>) (routes restMethod))
             (methods restClass))"

definition class_router_of ::
  "(string \<Rightarrow> bool) \<Rightarrow> (jsval, 'm) rest_class \<Rightarrow> error + 'm class_router" where
  "class_router_of router_has restClass =
     (case array_sort_throwing sortRoutes_any (class_entries restClass) of
        Inl e \<Rightarrow> Inl e
      | Inr sorted_methods \<Rightarrow>
          (case forEach_throwing (registerMethodRouteHandlers router_has) sorted_methods of
             Inl e \<Rightarrow> Inl e
           | Inr rs \<Rightarrow> Inr \<lparr>registered = rs, mounted_on = map path (class_routes restClass)\<rparr>))"

text \<open>
  \<^verbatim>\<open>createHandler()\<close>, given \<^verbatim>\<open>this.remotes.options\<close> (\<open>None\<close> when it is
  \<^verbatim>\<open>undefined\<close>, and then reading \<^verbatim>\<open>.cors\<close> off it is a \<^verbatim>\<open>TypeError\<close>) and what
  \<^verbatim>\<open>this.getClasses()\<close> returns. The value \<open>JUndefined\<close> of an option is what
  reading it gives both when the key is absent and when it holds \<^verbatim>\<open>undefined\<close>.
  \<^verbatim>\<open>throw new Error\<close> is \<open>Inl ConfigError\<close>, before anything is built. The
  option \<^verbatim>\<open>urlencoded\<close>, when truthy, is used in place of the default object; a
  value that is not an object has no property \<^verbatim>\<open>extended\<close>, and setting one on it
  is a \<^verbatim>\<open>TypeError\<close> of the strict mode the file is in, raised before the classes
  are gone through.
\<close>

definition createHandler ::
  "(string \<Rightarrow> bool) \<Rightarrow> remotes_options option \<Rightarrow> (jsval, 'm) rest_class list
     \<Rightarrow> error + 'm class_router list" where
  "createHandler router_has remotes_opts classes =
     (case remotes_opts of
        None \<Rightarrow> Inl TypeError
      | Some opts \<Rightarrow>
          (let corsOptions = cors opts
           in if corsOptions \<noteq> JUndefined \<and> corsOptions \<noteq> JBool False then Inl ConfigError
              else
                (let urlencodedOptions = (if truthy (urlencoded opts) then urlencoded opts else JObj)
                 in if urlencodedOptions \<noteq> JObj then Inl TypeError
                    else forEach_throwing (class_router_of router_has) classes)))"

text \<open>
  Two entries of a list with the same normalized verb, one of them with a path that is
  not a string.
\<close>

fun tied_with_bad_path :: "(jsval, 'm) route_entry list \<Rightarrow> bool" where
  "tied_with_bad_path [] = False"
| "tied_with_bad_path (x # xs) =
     (list_ex (\<lambda>y. normalize_verb (verb (route x)) = normalize_verb (verb (route y))
                   \<and> (\<not> is_string (path (route x)) \<or> \<not> is_string (path (route y)))) xs
      \<or> tied_with_bad_path xs)"

section \<open>Properties of the comparator\<close>

text \<open>
  The lowercasing and the verb normalization of the code are those of rule 1: checked
  on every code unit, then lifted to strings.
\<close>

lemma lowercased_all_units:
  "list_all (\<lambda>c. (case map_of (zip capital_letters small_letters) c of
                      Some l \<Rightarrow> l | None \<Rightarrow> c) = lower_char c) Enum.enum"
  by code_simp

lemma lowercased_unit:
  "(case map_of (zip capital_letters small_letters) c of Some l \<Rightarrow> l | None \<Rightarrow> c)
     = lower_char c"
proof -
  have "c \<in> set Enum.enum" by (simp add: enum_UNIV)
  with lowercased_all_units show ?thesis by (auto simp: list_all_iff)
qed

lemma lowercased_toLowerCase: "lowercased v = toLowerCase v"
  unfolding lowercased_def toLowerCase_def by (rule map_cong[OF refl]) (rule lowercased_unit)

lemma normalize_verb_ranked: "normalize_verb v = ranked_verb v"
  by (simp add: normalize_verb_def ranked_verb_def lowercased_toLowerCase Let_def)

lemma split_slash_not_Nil: "split_slash s \<noteq> []"
  by (induction s) auto

lemma char_at0_placeholder: "(char_at0 s = Some CHR '':'') = is_placeholder s"
  by (cases s) (auto simp: char_at0_def is_placeholder_def)

lemma sortRoutes_loop_rules:
  "len = min (length p1) (length p2) \<Longrightarrow> i \<le> len \<Longrightarrow>
   sortRoutes_loop p1 p2 len i
     = (if rule_segments (drop i p1) (drop i p2) = 0 then None
        else Some (rule_segments (drop i p1) (drop i p2)))"
proof (induction p1 p2 len i rule: sortRoutes_loop.induct)
  case (1 p1 p2 len i)
  show ?case
  proof (cases "i < len")
    case False
    with "1.prems" have "drop i p1 = [] \<or> drop i p2 = []"
      by (auto simp: min_def split: if_splits)
    with False show ?thesis
      by (subst sortRoutes_loop.simps) (auto simp: rule_segments_def)
  next
    case True
    with "1.prems" have d1: "drop i p1 = p1 ! i # drop (Suc i) p1"
      and d2: "drop i p2 = p2 ! i # drop (Suc i) p2"
      by (simp_all add: Cons_nth_drop_Suc)
    show ?thesis
    proof (cases "rule_segment (p1 ! i) (p2 ! i) = 0")
      case False
      with True show ?thesis
        by (subst sortRoutes_loop.simps)
           (auto simp: d1 d2 rule_segments_def rule_segment_def char_at0_placeholder
                 split: if_splits)
    next
      case eq: True
      then have same: "p1 ! i = p2 ! i"
        by (auto simp: rule_segment_def split: if_splits)
      have "sortRoutes_loop p1 p2 len (i + 1)
              = (if rule_segments (drop (i + 1) p1) (drop (i + 1) p2) = 0 then None
                 else Some (rule_segments (drop (i + 1) p1) (drop (i + 1) p2)))"
        using True "1.prems" same by (intro "1.IH") auto
      moreover have "sortRoutes_loop p1 p2 len i = sortRoutes_loop p1 p2 len (i + 1)"
        using True same by (subst sortRoutes_loop.simps) simp
      ultimately show ?thesis
        using eq by (simp add: d1 d2 rule_segments_def)
    qed
  qed
qed

lemma sgn_length_diff: "sgn (int (length p2) - int (length p1)) = rule_length p1 p2"
  by (simp add: rule_length_def)

lemma rule_segment_sgn: "sgn (rule_segment s1 s2) = rule_segment s1 s2"
  by (simp add: rule_segment_def)

lemma first_discriminating_sgn:
  "list_all (\<lambda>r. sgn r = r) rs \<Longrightarrow> sgn (first_discriminating rs) = first_discriminating rs"
  by (induction rs) auto

lemma rule_segments_sgn: "sgn (rule_segments p1 p2) = rule_segments p1 p2"
  unfolding rule_segments_def
  by (rule first_discriminating_sgn) (simp add: list_all_iff rule_segment_sgn split_beta)

lemma sortRoutes_sgn_rules: "sgn (sortRoutes r1 r2) = ranking_rules (route r1) (route r2)"
proof -
  let ?p1 = "split_slash (path (route r1))" and ?p2 = "split_slash (path (route r2))"
  have loop: "sortRoutes_loop ?p1 ?p2 (min (length ?p1) (length ?p2)) 0
                = (if rule_segments ?p1 ?p2 = 0 then None else Some (rule_segments ?p1 ?p2))"
    using sortRoutes_loop_rules[of "min (length ?p1) (length ?p2)" ?p1 ?p2 0] by simp
  show ?thesis
    by (simp add: sortRoutes_def ranking_rules_def rule_verb_def Let_def loop
                  rule_segments_sgn sgn_length_diff normalize_verb_ranked)
qed

lemma rule_segment_antisym: "rule_segment s1 s2 + rule_segment s2 s1 = 0"
  by (auto simp: rule_segment_def)

lemma rule_segment_zero_iff: "rule_segment s1 s2 = 0 \<longleftrightarrow> s1 = s2"
  by (auto simp: rule_segment_def)

lemma rule_segment_trans:
  "rule_segment a b \<le> 0 \<Longrightarrow> rule_segment b c \<le> 0 \<Longrightarrow> rule_segment a c \<le> 0"
  by (auto simp: rule_segment_def split: if_splits)

lemma rule_segments_simps:
  "rule_segments [] ys = 0"
  "rule_segments xs [] = 0"
  "rule_segments (x # xs) (y # ys) =
     (if rule_segment x y \<noteq> 0 then rule_segment x y else rule_segments xs ys)"
  by (simp_all add: rule_segments_def)

lemma compare_segments_rules:
  "compare_segments p1 p2 =
     (if rule_segments p1 p2 \<noteq> 0 then rule_segments p1 p2
      else int (length p2) - int (length p1))"
  by (induction p1 p2 rule: compare_segments.induct) (simp_all add: rule_segments_simps)

lemma compare_segments_antisym: "compare_segments xs ys + compare_segments ys xs = 0"
proof (induction xs ys rule: compare_segments.induct)
  case (1 ys)
  show ?case by (cases ys) simp_all
next
  case (2 x xs)
  show ?case by simp
next
  case (3 x xs y ys)
  show ?case
  proof (cases "x = y")
    case True
    with 3 show ?thesis by (simp add: rule_segment_zero_iff)
  next
    case False
    then have "rule_segment x y \<noteq> 0" "rule_segment y x \<noteq> 0"
      by (simp_all add: rule_segment_zero_iff)
    with rule_segment_antisym[of x y] show ?thesis by simp
  qed
qed

lemma compare_segments_zero_iff: "compare_segments xs ys = 0 \<longleftrightarrow> xs = ys"
  by (induction xs ys rule: compare_segments.induct) (auto simp: rule_segment_zero_iff)

lemma compare_segments_trans:
  "compare_segments xs ys \<le> 0 \<Longrightarrow> compare_segments ys zs \<le> 0 \<Longrightarrow> compare_segments xs zs \<le> 0"
proof (induction xs arbitrary: ys zs)
  case Nil
  then show ?case by (cases ys; cases zs) (auto split: if_splits)
next
  case (Cons x xs)
  show ?case
  proof (cases ys)
    case Nil
    with Cons.prems show ?thesis by (cases zs) (auto split: if_splits)
  next
    case ys: (Cons y ys')
    show ?thesis
    proof (cases zs)
      case Nil
      with Cons.prems ys show ?thesis by (auto split: if_splits)
    next
      case zs: (Cons z zs')
      show ?thesis
      proof (cases "x = y")
        case xy: True
        show ?thesis
        proof (cases "y = z")
          case True
          with xy Cons.prems ys zs Cons.IH[of ys' zs'] show ?thesis
            by (simp add: rule_segment_zero_iff)
        next
          case False
          with xy Cons.prems ys zs show ?thesis
            by (auto simp: rule_segment_zero_iff split: if_splits)
        qed
      next
        case xy: False
        then have 1: "rule_segment x y \<le> 0" using Cons.prems ys
          by (auto simp: rule_segment_zero_iff split: if_splits)
        show ?thesis
        proof (cases "y = z")
          case True
          with xy 1 zs show ?thesis by (auto simp: rule_segment_zero_iff)
        next
          case False
          then have 2: "rule_segment y z \<le> 0" using Cons.prems ys zs
            by (auto simp: rule_segment_zero_iff split: if_splits)
          have "x \<noteq> z"
          proof
            assume "x = z"
            with 1 2 rule_segment_antisym[of x y] have "rule_segment x y = 0" by simp
            with xy show False by (simp add: rule_segment_zero_iff)
          qed
          with rule_segment_trans[OF 1 2] zs show ?thesis
            by (auto simp: rule_segment_zero_iff)
        qed
      qed
    qed
  qed
qed


lemma sortRoutes_rules_exact:
  "sortRoutes r1 r2 =
     (if rule_verb (verb (route r1)) (verb (route r2)) \<noteq> 0
      then rule_verb (verb (route r1)) (verb (route r2))
      else compare_segments (split_slash (path (route r1))) (split_slash (path (route r2))))"
proof -
  let ?p1 = "split_slash (path (route r1))" and ?p2 = "split_slash (path (route r2))"
  have loop: "sortRoutes_loop ?p1 ?p2 (min (length ?p1) (length ?p2)) 0
                = (if rule_segments ?p1 ?p2 = 0 then None else Some (rule_segments ?p1 ?p2))"
    using sortRoutes_loop_rules[of "min (length ?p1) (length ?p2)" ?p1 ?p2 0] by simp
  show ?thesis
    by (simp add: sortRoutes_def rule_verb_def Let_def loop compare_segments_rules
                  normalize_verb_ranked)
qed

lemma rule_verb_antisym: "rule_verb v1 v2 + rule_verb v2 v1 = 0"
  by (auto simp: rule_verb_def)

lemma rule_verb_zero_iff: "rule_verb v1 v2 = 0 \<longleftrightarrow> normalize_verb v1 = normalize_verb v2"
  by (auto simp: rule_verb_def normalize_verb_ranked)

lemma rule_verb_trans: "rule_verb a b \<le> 0 \<Longrightarrow> rule_verb b c \<le> 0 \<Longrightarrow> rule_verb a c \<le> 0"
  by (auto simp: rule_verb_def split: if_splits)

lemma join_split_slash: "join_slash (split_slash s) = s"
proof (induction s)
  case Nil
  show ?case by simp
next
  case (Cons c s)
  obtain x xs where sp: "split_slash s = x # xs"
    using split_slash_not_Nil[of s] by (cases "split_slash s") auto
  with Cons show ?case by (cases xs) auto
qed

lemma split_slash_inj: "split_slash a = split_slash b \<Longrightarrow> a = b"
  by (metis join_split_slash)

lemma sortRoutes_antisym: "sortRoutes r2 r1 = - sortRoutes r1 r2"
  using rule_verb_antisym[of "verb (route r1)" "verb (route r2)"]
        compare_segments_antisym[of "split_slash (path (route r1))" "split_slash (path (route r2))"]
  by (simp add: sortRoutes_rules_exact rule_verb_zero_iff)

lemma sortRoutes_zero_iff:
  "sortRoutes r1 r2 = 0 \<longleftrightarrow>
     normalize_verb (verb (route r1)) = normalize_verb (verb (route r2))
     \<and> path (route r1) = path (route r2)"
  by (auto simp: sortRoutes_rules_exact rule_verb_zero_iff compare_segments_zero_iff
           dest: split_slash_inj)

lemma sortRoutes_le_trans:
  assumes "sortRoutes a b \<le> 0" and "sortRoutes b c \<le> 0"
  shows "sortRoutes a c \<le> 0"
proof -
  let ?v = "\<lambda>r. verb (route r)" and ?p = "\<lambda>r. split_slash (path (route r))"
  have ab: "rule_verb (?v a) (?v b) \<le> 0" and bc: "rule_verb (?v b) (?v c) \<le> 0"
    using assms by (auto simp: sortRoutes_rules_exact rule_verb_def split: if_splits)
  show ?thesis
  proof (cases "rule_verb (?v a) (?v c) = 0")
    case False
    with rule_verb_trans[OF ab bc] show ?thesis by (simp add: sortRoutes_rules_exact)
  next
    case True
    then have ac: "normalize_verb (?v a) = normalize_verb (?v c)"
      by (simp add: rule_verb_zero_iff)
    have "rule_verb (?v a) (?v b) = 0"
      using ab bc ac by (auto simp: rule_verb_def normalize_verb_ranked split: if_splits)
    moreover from this ac have "rule_verb (?v b) (?v c) = 0"
      by (simp add: rule_verb_zero_iff)
    ultimately have "compare_segments (?p a) (?p b) \<le> 0" "compare_segments (?p b) (?p c) \<le> 0"
      using assms by (simp_all add: sortRoutes_rules_exact)
    from compare_segments_trans[OF this] True show ?thesis
      by (simp add: sortRoutes_rules_exact)
  qed
qed

lemma sortRoutes_less_trans:
  assumes "sortRoutes a b < 0" and "sortRoutes b c < 0"
  shows "sortRoutes a c < 0"
proof (rule ccontr)
  assume "\<not> sortRoutes a c < 0"
  moreover have "sortRoutes a c \<le> 0"
    using assms by (intro sortRoutes_le_trans[of a b c]) simp_all
  ultimately have "sortRoutes c a \<le> 0" by (simp add: sortRoutes_antisym[of a c])
  with assms(1) have "sortRoutes c b \<le> 0"
    by (intro sortRoutes_le_trans[of c a b]) simp_all
  with assms(2) show False by (simp add: sortRoutes_antisym[of b c])
qed

lemma set_array_insert: "set (array_insert cmp x ys) = insert x (set ys)"
  by (induction ys) auto

lemma sorted_array_insert:
  assumes total: "\<And>a b. 0 < cmp a b \<Longrightarrow> cmp b a \<le> 0"
    and trans: "\<And>a b c. cmp a b \<le> 0 \<Longrightarrow> cmp b c \<le> 0 \<Longrightarrow> cmp a c \<le> 0"
  shows "sorted_wrt (\<lambda>a b. cmp a b \<le> 0) ys
           \<Longrightarrow> sorted_wrt (\<lambda>a b. cmp a b \<le> 0) (array_insert cmp x ys)"
proof (induction ys)
  case Nil
  show ?case by simp
next
  case (Cons y ys)
  show ?case
  proof (cases "cmp x y \<le> 0")
    case True
    with Cons.prems show ?thesis by (auto intro: trans)
  next
    case False
    then have "cmp y x \<le> 0" using total[of x y] by simp
    with False Cons show ?thesis by (auto simp: set_array_insert)
  qed
qed

lemma sorted_array_sort:
  assumes "\<And>a b. 0 < cmp a b \<Longrightarrow> cmp b a \<le> 0"
    and "\<And>a b c. cmp a b \<le> 0 \<Longrightarrow> cmp b c \<le> 0 \<Longrightarrow> cmp a c \<le> 0"
  shows "sorted_wrt (\<lambda>a b. cmp a b \<le> 0) (array_sort cmp xs)"
  by (induction xs) (simp_all add: sorted_array_insert[OF assms])

lemma array_sort_sorted_id:
  "sorted_wrt (\<lambda>a b. cmp a b \<le> 0) xs \<Longrightarrow> array_sort cmp xs = xs"
proof (induction xs)
  case Nil
  show ?case by simp
next
  case (Cons x xs)
  then have "array_sort cmp xs = xs" by simp
  with Cons.prems show ?case by (cases xs) auto
qed

lemma sorted_sortRoutes:
  "sorted_wrt (\<lambda>a b. sortRoutes a b \<le> 0) (array_sort sortRoutes xs)"
proof (rule sorted_array_sort)
  fix a b :: "(string, 'a) route_entry"
  assume "0 < sortRoutes a b"
  then show "sortRoutes b a \<le> 0" by (simp add: sortRoutes_antisym[of a b])
next
  fix a b c :: "(string, 'a) route_entry"
  assume "sortRoutes a b \<le> 0" "sortRoutes b c \<le> 0"
  then show "sortRoutes a c \<le> 0" by (rule sortRoutes_le_trans)
qed

lemma array_sort_sortRoutes_idem:
  "array_sort sortRoutes (array_sort sortRoutes xs) = array_sort sortRoutes xs"
  by (rule array_sort_sorted_id) (rule sorted_sortRoutes)

lemma filter_array_insert:
  assumes "\<And>z. P x \<Longrightarrow> 0 < cmp x z \<Longrightarrow> \<not> P z"
  shows "filter P (array_insert cmp x ys) = (if P x then x # filter P ys else filter P ys)"
proof (induction ys)
  case Nil
  show ?case by simp
next
  case (Cons y ys)
  show ?case
  proof (cases "cmp x y \<le> 0")
    case True
    then show ?thesis by simp
  next
    case False
    then have "P x \<Longrightarrow> \<not> P y" using assms[of y] by simp
    with False Cons show ?thesis by auto
  qed
qed

lemma array_sort_sortRoutes_stable:
  "filter (\<lambda>y. sortRoutes k y = 0) (array_sort sortRoutes xs) = filter (\<lambda>y. sortRoutes k y = 0) xs"
proof (induction xs)
  case Nil
  show ?case by simp
next
  case (Cons x xs)
  have "filter (\<lambda>y. sortRoutes k y = 0) (array_insert sortRoutes x (array_sort sortRoutes xs))
          = (if sortRoutes k x = 0 then x # filter (\<lambda>y. sortRoutes k y = 0) (array_sort sortRoutes xs)
             else filter (\<lambda>y. sortRoutes k y = 0) (array_sort sortRoutes xs))"
  proof (rule filter_array_insert)
    fix z
    assume "sortRoutes k x = 0" and "0 < sortRoutes x z"
    show "sortRoutes k z \<noteq> 0"
    proof
      assume "sortRoutes k z = 0"
      with \<open>sortRoutes k x = 0\<close> have "sortRoutes x z = 0"
        by (simp add: sortRoutes_zero_iff)
      with \<open>0 < sortRoutes x z\<close> show False by simp
    qed
  qed
  with Cons show ?case by simp
qed

text \<open>
  Claim C1. For every pair of routes, \<^verbatim>\<open>sortRoutes\<close> applies the rules in sequence
  until one discriminates: the sign of its result is the first non-zero verdict among
  (1) the verbs, lowercased and with \<^verbatim>\<open>del\<close> read as \<^verbatim>\<open>delete\<close>, compared
  descending, (2) the path segments compared pairwise up to the shorter length (an
  empty segment after a non-empty one, a placeholder after a literal, otherwise
  ascending), (3) the number of segments, more segments first. So \<^verbatim>\<open>PUT /x\<close> ranks
  before \<^verbatim>\<open>GET /x\<close>, and \<^verbatim>\<open>GET /widgets/count\<close> before \<^verbatim>\<open>GET /widgets/:id\<close>;
  \<^verbatim>\<open>get\<close> and \<^verbatim>\<open>GET\<close> tie; \<^verbatim>\<open>GET\<close> ranks before \<^verbatim>\<open>delete\<close>, as \<^verbatim>\<open>get\<close> does;
  \<^verbatim>\<open>DEL\<close> and \<^verbatim>\<open>delete\<close> tie, so that \<^verbatim>\<open>DEL /a\<close> ranks before \<^verbatim>\<open>delete /b\<close>
  and \<^verbatim>\<open>delete /a\<close> before \<^verbatim>\<open>del /b\<close>.
\<close>

theorem sortRoutes_applies_rules_in_sequence:
  "sgn (sortRoutes r1 r2) = ranking_rules (route r1) (route r2)
   \<and> sortRoutes \<lparr>route = \<lparr>verb = ''PUT'', path = ''/x''\<rparr>, entry_method = ()\<rparr>
                 \<lparr>route = \<lparr>verb = ''GET'', path = ''/x''\<rparr>, entry_method = ()\<rparr> < 0
   \<and> sortRoutes \<lparr>route = \<lparr>verb = ''GET'', path = ''/widgets/count''\<rparr>, entry_method = ()\<rparr>
                 \<lparr>route = \<lparr>verb = ''GET'', path = ''/widgets/:id''\<rparr>, entry_method = ()\<rparr> < 0
   \<and> sortRoutes \<lparr>route = \<lparr>verb = ''get'', path = ''/x''\<rparr>, entry_method = ()\<rparr>
                 \<lparr>route = \<lparr>verb = ''GET'', path = ''/x''\<rparr>, entry_method = ()\<rparr> = 0
   \<and> sortRoutes \<lparr>route = \<lparr>verb = ''GET'', path = ''/x''\<rparr>, entry_method = ()\<rparr>
                 \<lparr>route = \<lparr>verb = ''delete'', path = ''/x''\<rparr>, entry_method = ()\<rparr> < 0
   \<and> sortRoutes \<lparr>route = \<lparr>verb = ''DEL'', path = ''/a''\<rparr>, entry_method = ()\<rparr>
                 \<lparr>route = \<lparr>verb = ''delete'', path = ''/b''\<rparr>, entry_method = ()\<rparr> < 0
   \<and> sortRoutes \<lparr>route = \<lparr>verb = ''delete'', path = ''/a''\<rparr>, entry_method = ()\<rparr>
                 \<lparr>route = \<lparr>verb = ''del'', path = ''/b''\<rparr>, entry_method = ()\<rparr> < 0"
proof (intro conjI)
  show "sgn (sortRoutes r1 r2) = ranking_rules (route r1) (route r2)"
    by (rule sortRoutes_sgn_rules)
  show "sortRoutes \<lparr>route = \<lparr>verb = ''PUT'', path = ''/x''\<rparr>, entry_method = ()\<rparr>
                   \<lparr>route = \<lparr>verb = ''GET'', path = ''/x''\<rparr>, entry_method = ()\<rparr> < 0"
    by code_simp
  show "sortRoutes \<lparr>route = \<lparr>verb = ''GET'', path = ''/widgets/count''\<rparr>, entry_method = ()\<rparr>
                   \<lparr>route = \<lparr>verb = ''GET'', path = ''/widgets/:id''\<rparr>, entry_method = ()\<rparr> < 0"
    by code_simp
  show "sortRoutes \<lparr>route = \<lparr>verb = ''get'', path = ''/x''\<rparr>, entry_method = ()\<rparr>
                   \<lparr>route = \<lparr>verb = ''GET'', path = ''/x''\<rparr>, entry_method = ()\<rparr> = 0"
    by code_simp
  show "sortRoutes \<lparr>route = \<lparr>verb = ''GET'', path = ''/x''\<rparr>, entry_method = ()\<rparr>
                   \<lparr>route = \<lparr>verb = ''delete'', path = ''/x''\<rparr>, entry_method = ()\<rparr> < 0"
    by code_simp
  show "sortRoutes \<lparr>route = \<lparr>verb = ''DEL'', path = ''/a''\<rparr>, entry_method = ()\<rparr>
                   \<lparr>route = \<lparr>verb = ''delete'', path = ''/b''\<rparr>, entry_method = ()\<rparr> < 0"
    by code_simp
  show "sortRoutes \<lparr>route = \<lparr>verb = ''delete'', path = ''/a''\<rparr>, entry_method = ()\<rparr>
                   \<lparr>route = \<lparr>verb = ''del'', path = ''/b''\<rparr>, entry_method = ()\<rparr> < 0"
    by code_simp
qed

text \<open>
  Claim C2, as stated, fails: two different routes compare as equal, the verbs
  \<^verbatim>\<open>del\<close> and \<^verbatim>\<open>delete\<close> being normalized to the same verb.
\<close>

theorem sortRoutes_zero_on_different_routes:
  "sortRoutes \<lparr>route = \<lparr>verb = ''del'', path = ''/x''\<rparr>, entry_method = ()\<rparr>
              \<lparr>route = \<lparr>verb = ''delete'', path = ''/x''\<rparr>, entry_method = ()\<rparr> = 0
   \<and> \<lparr>verb = ''del'', path = ''/x''\<rparr> \<noteq> \<lparr>verb = ''delete'', path = ''/x''\<rparr>"
  by code_simp

text \<open>
  Claim C2, amended. \<^verbatim>\<open>sortRoutes\<close> is a total preorder on route entries:
  swapping the arguments negates the result; the result is zero exactly when the
  normalized verbs are equal and the paths are equal; the induced order is transitive,
  strictly and weakly. Consequently the stable sort by \<^verbatim>\<open>sortRoutes\<close> yields a list
  in rank order in which the entries that compare as equal keep their original order,
  and sorting that list again leaves it as it is.
\<close>

theorem sortRoutes_total_preorder:
  "sortRoutes b a = - sortRoutes a b
   \<and> (sortRoutes a b = 0 \<longleftrightarrow>
        normalize_verb (verb (route a)) = normalize_verb (verb (route b))
        \<and> path (route a) = path (route b))
   \<and> (sortRoutes a b < 0 \<and> sortRoutes b c < 0 \<longrightarrow> sortRoutes a c < 0)
   \<and> (sortRoutes a b \<le> 0 \<and> sortRoutes b c \<le> 0 \<longrightarrow> sortRoutes a c \<le> 0)
   \<and> sorted_wrt (\<lambda>x y. sortRoutes x y \<le> 0) (array_sort sortRoutes xs)
   \<and> filter (\<lambda>y. sortRoutes k y = 0) (array_sort sortRoutes xs)
       = filter (\<lambda>y. sortRoutes k y = 0) xs
   \<and> array_sort sortRoutes (array_sort sortRoutes xs) = array_sort sortRoutes xs"
proof (intro conjI impI)
  show "sortRoutes b a = - sortRoutes a b"
    by (rule sortRoutes_antisym)
  show "sortRoutes a b = 0 \<longleftrightarrow>
          normalize_verb (verb (route a)) = normalize_verb (verb (route b))
          \<and> path (route a) = path (route b)"
    by (rule sortRoutes_zero_iff)
  show "sortRoutes a c < 0" if "sortRoutes a b < 0 \<and> sortRoutes b c < 0"
    using that by (blast intro: sortRoutes_less_trans)
  show "sortRoutes a c \<le> 0" if "sortRoutes a b \<le> 0 \<and> sortRoutes b c \<le> 0"
    using that by (blast intro: sortRoutes_le_trans)
  show "sorted_wrt (\<lambda>x y. sortRoutes x y \<le> 0) (array_sort sortRoutes xs)"
    by (rule sorted_sortRoutes)
  show "filter (\<lambda>y. sortRoutes k y = 0) (array_sort sortRoutes xs)
          = filter (\<lambda>y. sortRoutes k y = 0) xs"
    by (rule array_sort_sortRoutes_stable)
  show "array_sort sortRoutes (array_sort sortRoutes xs) = array_sort sortRoutes xs"
    by (rule array_sort_sortRoutes_idem)
qed

theorem sortRoutes_total_preorder_witness:
  "sortRoutes \<lparr>route = \<lparr>verb = ''PUT'', path = ''/x''\<rparr>, entry_method = ()\<rparr>
              \<lparr>route = \<lparr>verb = ''GET'', path = ''/widgets/count''\<rparr>, entry_method = ()\<rparr> < 0
   \<and> sortRoutes \<lparr>route = \<lparr>verb = ''GET'', path = ''/widgets/count''\<rparr>, entry_method = ()\<rparr>
                 \<lparr>route = \<lparr>verb = ''GET'', path = ''/widgets/:id''\<rparr>, entry_method = ()\<rparr> < 0
   \<and> sortRoutes \<lparr>route = \<lparr>verb = ''PUT'', path = ''/x''\<rparr>, entry_method = ()\<rparr>
                 \<lparr>route = \<lparr>verb = ''GET'', path = ''/widgets/:id''\<rparr>, entry_method = ()\<rparr> < 0
   \<and> sortRoutes \<lparr>route = \<lparr>verb = ''PUT'', path = ''/x''\<rparr>, entry_method = ()\<rparr>
                 \<lparr>route = \<lparr>verb = ''GET'', path = ''/widgets/:id''\<rparr>, entry_method = ()\<rparr> \<le> 0"
proof -
  let ?a = "\<lparr>route = \<lparr>verb = ''PUT'', path = ''/x''\<rparr>, entry_method = ()\<rparr>"
  let ?b = "\<lparr>route = \<lparr>verb = ''GET'', path = ''/widgets/count''\<rparr>, entry_method = ()\<rparr>"
  let ?c = "\<lparr>route = \<lparr>verb = ''GET'', path = ''/widgets/:id''\<rparr>, entry_method = ()\<rparr>"
  have ab: "sortRoutes ?a ?b < 0" by code_simp
  have bc: "sortRoutes ?b ?c < 0" by code_simp
  from sortRoutes_total_preorder[where a="?a" and b="?b" and c="?c" and xs="[]" and k="?a"] ab bc
  have "sortRoutes ?a ?c < 0" and "sortRoutes ?a ?c \<le> 0" by simp_all
  with ab bc show ?thesis by blast
qed

section \<open>Properties of path joining\<close>

lemma joinPaths_concat_left_string:
  "unit_at (glue_of (last_unit left) (first_unit right)) 0 = Some CHR ''/''
   \<or> unit_at (glue_of (last_unit left) (first_unit right)) 1 = Some CHR ''/''
   \<Longrightarrow> is_string left"
  by (cases left; cases "first_unit right")
     (auto simp: unit_at_def glue_of_def last_unit_def is_string_def split: if_splits)

lemma joinPaths_slice_strings:
  "glue_of (last_unit left) (first_unit right) = Some ''//''
   \<Longrightarrow> is_string left \<and> is_string right"
  by (cases left; cases right)
     (auto simp: glue_of_def last_unit_def first_unit_def is_string_def split: if_splits option.splits)

lemma joinPaths_strings:
  "joinPaths (JStr p) (JStr s) =
     JStr (if p = [] then s
           else if s = [] \<or> s = ''/'' then p
           else if last p = CHR ''/'' \<and> hd s = CHR ''/'' then p @ tl s
           else if last p = CHR ''/'' \<or> hd s = CHR ''/'' then p @ s
           else p @ ''/'' @ s)"
  by (cases s)
     (auto simp: joinPaths_def truthy_def glue_of_def last_unit_def first_unit_def
                 char_at0_def unit_at_def to_str_def Let_def)

text \<open>
  Claim C3, as stated, fails for the empty prefix: \<^verbatim>\<open>joinPaths('', '/')\<close> is the
  suffix \<^verbatim>\<open>'/'\<close>, not the prefix \<^verbatim>\<open>''\<close>.
\<close>

theorem joinPaths_empty_prefix_slash_suffix:
  "joinPaths (JStr []) (JStr ''/'') = JStr ''/'' \<and> joinPaths (JStr []) (JStr ''/'') \<noteq> JStr []"
  by (simp add: joinPaths_def truthy_def)

text \<open>
  Claim C3, amended. For every suffix \<open>s\<close>, \<^verbatim>\<open>joinPaths('', s)\<close> is \<open>s\<close>; for
  every prefix \<open>p\<close>, \<^verbatim>\<open>joinPaths(p, '')\<close> is \<open>p\<close>, and for every non-empty prefix
  \<open>p\<close>, \<^verbatim>\<open>joinPaths(p, '/')\<close> is \<open>p\<close>. When the prefix is not empty and the suffix is
  neither empty nor \<^verbatim>\<open>'/'\<close>: with \<^verbatim>\<open>/\<close> on exactly one side of the boundary the
  result is the concatenation, with \<^verbatim>\<open>/\<close> on both sides the doubled slash collapses
  to one, with \<^verbatim>\<open>/\<close> on neither side one \<^verbatim>\<open>/\<close> is inserted. In particular
  \<^verbatim>\<open>joinPaths('/a', '/b')\<close> and \<^verbatim>\<open>joinPaths('/a/', '/b')\<close> are \<^verbatim>\<open>'/a/b'\<close>.
\<close>

theorem joinPaths_boundary_contract:
  "joinPaths (JStr []) (JStr s) = JStr s
   \<and> joinPaths (JStr p) (JStr []) = JStr p
   \<and> (p \<noteq> [] \<longrightarrow> joinPaths (JStr p) (JStr ''/'') = JStr p)
   \<and> (p \<noteq> [] \<and> s \<noteq> [] \<and> s \<noteq> ''/'' \<longrightarrow>
        ((last p = CHR ''/'') \<noteq> (hd s = CHR ''/'') \<longrightarrow>
           joinPaths (JStr p) (JStr s) = JStr (p @ s))
        \<and> (last p = CHR ''/'' \<and> hd s = CHR ''/'' \<longrightarrow>
             joinPaths (JStr p) (JStr s) = JStr (p @ tl s))
        \<and> (last p \<noteq> CHR ''/'' \<and> hd s \<noteq> CHR ''/'' \<longrightarrow>
             joinPaths (JStr p) (JStr s) = JStr (p @ ''/'' @ s)))
   \<and> joinPaths (JStr ''/a'') (JStr ''/b'') = JStr ''/a/b''
   \<and> joinPaths (JStr ''/a/'') (JStr ''/b'') = JStr ''/a/b''"
proof (intro conjI impI)
  show "joinPaths (JStr []) (JStr s) = JStr s"
    by (simp add: joinPaths_strings)
  show "joinPaths (JStr p) (JStr []) = JStr p"
    by (simp add: joinPaths_strings)
  show "joinPaths (JStr p) (JStr ''/'') = JStr p" if "p \<noteq> []"
    using that by (simp add: joinPaths_strings)
  assume guards: "p \<noteq> [] \<and> s \<noteq> [] \<and> s \<noteq> ''/''"
  show "joinPaths (JStr p) (JStr s) = JStr (p @ s)"
    if "(last p = CHR ''/'') \<noteq> (hd s = CHR ''/'')"
    using that guards by (auto simp: joinPaths_strings)
  show "joinPaths (JStr p) (JStr s) = JStr (p @ tl s)"
    if "last p = CHR ''/'' \<and> hd s = CHR ''/''"
    using that guards by (simp add: joinPaths_strings)
  show "joinPaths (JStr p) (JStr s) = JStr (p @ ''/'' @ s)"
    if "last p \<noteq> CHR ''/'' \<and> hd s \<noteq> CHR ''/''"
    using that guards by (simp add: joinPaths_strings)
next
  show "joinPaths (JStr ''/a'') (JStr ''/b'') = JStr ''/a/b''"
    by (simp add: joinPaths_strings)
  show "joinPaths (JStr ''/a/'') (JStr ''/b'') = JStr ''/a/b''"
    by (simp add: joinPaths_strings)
qed

theorem joinPaths_boundary_contract_witness:
  "joinPaths (JStr ''/a'') (JStr ''/'') = JStr ''/a''
   \<and> joinPaths (JStr ''/a'') (JStr ''b'') = JStr ''/a/b''
   \<and> joinPaths (JStr ''/a/'') (JStr ''b'') = JStr ''/a/b''
   \<and> joinPaths (JStr ''/a/'') (JStr ''/b/'') = JStr ''/a/b/''"
  using joinPaths_boundary_contract[of "''b''" "''/a''"]
        joinPaths_boundary_contract[of "''b''" "''/a/''"]
        joinPaths_boundary_contract[of "''/b/''" "''/a/''"]
  by simp

section \<open>Properties of path normalization\<close>

lemma of_char_lower_char:
  "(of_char (lower_char c) :: nat) =
     (if (65 \<le> (of_char c :: nat) \<and> (of_char c :: nat) \<le> 90)
         \<or> (192 \<le> (of_char c :: nat) \<and> (of_char c :: nat) \<le> 222 \<and> (of_char c :: nat) \<noteq> 215)
      then of_char c + 32 else of_char c)"
  by (auto simp: lower_char_def Let_def)

lemma char_eq_iff_code: "(c = d) = ((of_char c :: nat) = of_char d)"
  by auto

lemma lower_char_idem: "lower_char (lower_char c) = lower_char c"
  by (simp add: char_eq_iff_code[of "lower_char (lower_char c)"] of_char_lower_char)

lemma lower_char_eq_special:
  "(lower_char c = CHR ''/'') = (c = CHR ''/'')"
  "(lower_char c = CHR '':'') = (c = CHR '':'')"
  "(lower_char c = CHR ''_'') = (c = CHR ''_'')"
  "(lower_char c = CHR '' '') = (c = CHR '' '')"
  "(lower_char c = CHR ''-'') = (c = CHR ''-'')"
  by (simp_all add: char_eq_iff_code[of "lower_char c"] char_eq_iff_code[of c] of_char_lower_char)

lemma lower_char_fixed_not_upper:
  "lower_char c = c \<Longrightarrow> \<not> (CHR ''A'' \<le> c \<and> c \<le> CHR ''Z'')"
  by (simp add: char_eq_iff_code[of "lower_char c"] of_char_lower_char less_eq_char_def split: if_splits)

lemma set_underscore_marks:
  "set (concat (map (\<lambda>c. if CHR ''A'' \<le> c \<and> c \<le> CHR ''Z'' then [CHR ''_'', c] else [c]) s))
     \<subseteq> insert CHR ''_'' (set s)"
  by (induction s) auto

lemma set_strip_prefix: "x \<in> set (if u \<noteq> [] \<and> hd u = c then tl u else u) \<Longrightarrow> x \<in> set u"
  by (cases u) (auto split: if_splits)

lemma set_inflection_underscore:
  "c \<in> set (inflection_underscore s) \<Longrightarrow> \<exists>x. c = lower_char x \<and> (x = CHR ''_'' \<or> x \<in> set s)"
proof -
  let ?u = "concat (map (\<lambda>c. if CHR ''A'' \<le> c \<and> c \<le> CHR ''Z'' then [CHR ''_'', c] else [c]) s)"
  assume "c \<in> set (inflection_underscore s)"
  then obtain x where x: "c = lower_char x" "x \<in> set (if ?u \<noteq> [] \<and> hd ?u = CHR ''_'' then tl ?u else ?u)"
    unfolding inflection_underscore_def Let_def toLowerCase_def by (auto simp only: set_map)
  from x(2) have "x \<in> set ?u"
    by (rule set_strip_prefix)
  with set_underscore_marks[of s] have "x = CHR ''_'' \<or> x \<in> set s" by blast
  with x(1) show ?thesis by blast
qed

lemma set_inflection_dasherize:
  "c \<in> set (inflection_dasherize u) \<Longrightarrow>
     c = CHR ''-'' \<or> (c \<in> set u \<and> c \<noteq> CHR ''_'' \<and> c \<noteq> CHR '' '')"
  by (induction u) (auto simp: inflection_dasherize_def split: if_splits)

lemma inflection_transform_cases:
  assumes "c \<in> set (inflection_transform s)"
  shows "c = CHR ''-'' \<or> (\<exists>x. c = lower_char x \<and> (x = CHR ''_'' \<or> x \<in> set s)
                               \<and> c \<noteq> CHR ''_'' \<and> c \<noteq> CHR '' '')"
  using set_inflection_dasherize[of c "inflection_underscore s"] assms
        set_inflection_underscore[of c s]
  unfolding inflection_transform_def by blast

lemma lower_dash: "lower_char CHR ''-'' = CHR ''-''"
  by (simp add: lower_char_eq_special)

lemma inflection_transform_chars:
  assumes "c \<in> set (inflection_transform s)"
  shows "lower_char c = c \<and> c \<noteq> CHR ''_'' \<and> c \<noteq> CHR '' ''"
  using inflection_transform_cases[OF assms]
proof
  assume "c = CHR ''-''"
  then show ?thesis by (simp add: lower_dash)
next
  assume "\<exists>x. c = lower_char x \<and> (x = CHR ''_'' \<or> x \<in> set s) \<and> c \<noteq> CHR ''_'' \<and> c \<noteq> CHR '' ''"
  then obtain x where "c = lower_char x" "c \<noteq> CHR ''_''" "c \<noteq> CHR '' ''" by blast
  then show ?thesis by (simp add: lower_char_idem)
qed

lemma inflection_transform_no_slash:
  assumes "CHR ''/'' \<notin> set s"
  shows "CHR ''/'' \<notin> set (inflection_transform s)"
proof
  assume "CHR ''/'' \<in> set (inflection_transform s)"
  from inflection_transform_cases[OF this]
  obtain x where "CHR ''/'' = lower_char x" "x = CHR ''_'' \<or> x \<in> set s" by auto
  then have "x = CHR ''/''" "x = CHR ''_'' \<or> x \<in> set s"
    by (simp_all add: lower_char_eq_special(1)[of x, symmetric] eq_commute)
  with assms show False by auto
qed

lemma inflection_transform_no_colon:
  assumes "CHR '':'' \<notin> set s"
  shows "CHR '':'' \<notin> set (inflection_transform s)"
proof
  assume "CHR '':'' \<in> set (inflection_transform s)"
  from inflection_transform_cases[OF this]
  obtain x where "CHR '':'' = lower_char x" "x = CHR ''_'' \<or> x \<in> set s" by auto
  then have "x = CHR '':''" "x = CHR ''_'' \<or> x \<in> set s"
    by (simp_all add: lower_char_eq_special(2)[of x, symmetric] eq_commute)
  with assms show False by auto
qed

lemma underscore_marks_fixed:
  "\<forall>c \<in> set r. \<not> (CHR ''A'' \<le> c \<and> c \<le> CHR ''Z'') \<Longrightarrow>
   concat (map (\<lambda>c. if CHR ''A'' \<le> c \<and> c \<le> CHR ''Z'' then [CHR ''_'', c] else [c]) r) = r"
  by (induction r) auto

lemma inflection_transform_fixed:
  assumes "\<forall>c \<in> set r. lower_char c = c \<and> c \<noteq> CHR ''_'' \<and> c \<noteq> CHR '' ''"
  shows "inflection_transform r = r"
proof -
  have "\<forall>c \<in> set r. \<not> (CHR ''A'' \<le> c \<and> c \<le> CHR ''Z'')"
    using assms lower_char_fixed_not_upper by blast
  then have u: "concat (map (\<lambda>c. if CHR ''A'' \<le> c \<and> c \<le> CHR ''Z'' then [CHR ''_'', c] else [c]) r) = r"
    by (rule underscore_marks_fixed)
  have hd: "r \<noteq> [] \<Longrightarrow> hd r \<noteq> CHR ''_''"
    using assms by (cases r) auto
  have low: "map lower_char r = r"
    using assms by (simp add: map_idI)
  have und: "inflection_underscore r = r"
    using hd by (cases "r = []") (simp_all add: inflection_underscore_def u toLowerCase_def low)
  have "inflection_dasherize r = r"
    unfolding inflection_dasherize_def using assms by (intro map_idI) auto
  with und show ?thesis by (simp add: inflection_transform_def)
qed

lemma inflection_transform_idem:
  "inflection_transform (inflection_transform s) = inflection_transform s"
  by (rule inflection_transform_fixed) (blast dest: inflection_transform_chars)

lemma replace_runs_segments:
  "split_slash s = x # xs \<Longrightarrow>
   replace_runs f run s = join_slash (map (\<lambda>seg. if seg = [] then [] else f seg) ((run @ x) # xs))"
proof (induction s arbitrary: run x xs)
  case Nil
  then show ?case by simp
next
  case (Cons c cs)
  obtain y ys where sp: "split_slash cs = y # ys"
    using split_slash_not_Nil[of cs] by (cases "split_slash cs") auto
  show ?case
  proof (cases "c = CHR ''/''")
    case True
    with Cons.prems sp have "x = []" "xs = y # ys" by simp_all
    with True Cons.IH[OF sp, of "[]"] show ?thesis by simp
  next
    case False
    with Cons.prems sp have "x = c # y" "xs = ys" by simp_all
    with False Cons.IH[OF sp, of "run @ [c]"] show ?thesis by simp
  qed
qed

lemma normalizeHttpPath_segments:
  "normalizeHttpPath t (JStr s) = JStr (join_slash (map (normalize_segment t) (split_slash s)))"
proof -
  obtain x xs where sp: "split_slash s = x # xs"
    using split_slash_not_Nil[of s] by (cases "split_slash s") auto
  have "(\<lambda>seg. if seg = [] then []
               else (\<lambda>match. if CHR '':'' \<in> set match then match else t match) seg)
          = normalize_segment t"
    by (rule ext) (simp add: normalize_segment_def)
  with replace_runs_segments[OF sp, of "\<lambda>match. if CHR '':'' \<in> set match then match else t match" "[]"]
  show ?thesis by (simp add: normalizeHttpPath_def sp)
qed

lemma split_slash_no_slash: "seg \<in> set (split_slash s) \<Longrightarrow> CHR ''/'' \<notin> set seg"
proof (induction s arbitrary: seg)
  case Nil
  then show ?case by simp
next
  case (Cons c cs)
  obtain y ys where sp: "split_slash cs = y # ys"
    using split_slash_not_Nil[of cs] by (cases "split_slash cs") auto
  with Cons show ?case by (cases "c = CHR ''/''") (auto simp: sp)
qed

lemma split_slash_no_slash_id: "CHR ''/'' \<notin> set s \<Longrightarrow> split_slash s = [s]"
  by (induction s) auto

lemma split_slash_append:
  "CHR ''/'' \<notin> set s \<Longrightarrow> split_slash (s @ CHR ''/'' # r) = s # split_slash r"
  by (induction s) auto

lemma split_join_slash:
  "segs \<noteq> [] \<Longrightarrow> \<forall>seg \<in> set segs. CHR ''/'' \<notin> set seg \<Longrightarrow> split_slash (join_slash segs) = segs"
proof (induction segs rule: join_slash.induct)
  case 1
  then show ?case by simp
next
  case (2 s)
  then show ?case by (simp add: split_slash_no_slash_id)
next
  case (3 s t ss)
  then show ?case by (simp add: split_slash_append)
qed

lemma normalize_segment_no_slash:
  assumes "\<forall>seg. seg \<noteq> [] \<and> CHR ''/'' \<notin> set seg \<and> CHR '':'' \<notin> set seg
             \<longrightarrow> CHR ''/'' \<notin> set (t seg) \<and> CHR '':'' \<notin> set (t seg)"
    and "CHR ''/'' \<notin> set seg"
  shows "CHR ''/'' \<notin> set (normalize_segment t seg)"
  using assms by (auto simp: normalize_segment_def)

lemma normalize_segment_idem:
  assumes "\<forall>seg. seg \<noteq> [] \<and> CHR ''/'' \<notin> set seg \<and> CHR '':'' \<notin> set seg
             \<longrightarrow> CHR ''/'' \<notin> set (t seg) \<and> CHR '':'' \<notin> set (t seg)"
    and "\<forall>seg. seg \<noteq> [] \<and> CHR ''/'' \<notin> set seg \<and> CHR '':'' \<notin> set seg \<and> t seg \<noteq> []
             \<longrightarrow> t (t seg) = t seg"
    and "CHR ''/'' \<notin> set seg"
  shows "normalize_segment t (normalize_segment t seg) = normalize_segment t seg"
proof (cases "seg = [] \<or> CHR '':'' \<in> set seg")
  case True
  then show ?thesis by (auto simp: normalize_segment_def)
next
  case False
  with assms(3) have seg: "seg \<noteq> [] \<and> CHR ''/'' \<notin> set seg \<and> CHR '':'' \<notin> set seg" by simp
  with assms(1) have out: "CHR '':'' \<notin> set (t seg)" by blast
  show ?thesis
  proof (cases "t seg = []")
    case True
    with False show ?thesis by (simp add: normalize_segment_def)
  next
    case nonempty: False
    with assms(2) seg have "t (t seg) = t seg" by blast
    with False out nonempty show ?thesis by (simp add: normalize_segment_def)
  qed
qed

lemma split_normalizeHttpPath:
  assumes "\<forall>seg. seg \<noteq> [] \<and> CHR ''/'' \<notin> set seg \<and> CHR '':'' \<notin> set seg
             \<longrightarrow> CHR ''/'' \<notin> set (t seg) \<and> CHR '':'' \<notin> set (t seg)"
  shows "split_slash (join_slash (map (normalize_segment t) (split_slash s)))
           = map (normalize_segment t) (split_slash s)"
proof (rule split_join_slash)
  show "map (normalize_segment t) (split_slash s) \<noteq> []"
    by (simp add: split_slash_not_Nil)
  show "\<forall>seg \<in> set (map (normalize_segment t) (split_slash s)). CHR ''/'' \<notin> set seg"
    using normalize_segment_no_slash[OF assms] split_slash_no_slash[of _ s] by auto
qed

lemma normalizeHttpPath_idem_string:
  assumes h1: "\<forall>seg. seg \<noteq> [] \<and> CHR ''/'' \<notin> set seg \<and> CHR '':'' \<notin> set seg
             \<longrightarrow> CHR ''/'' \<notin> set (t seg) \<and> CHR '':'' \<notin> set (t seg)"
    and h2: "\<forall>seg. seg \<noteq> [] \<and> CHR ''/'' \<notin> set seg \<and> CHR '':'' \<notin> set seg \<and> t seg \<noteq> []
             \<longrightarrow> t (t seg) = t seg"
  shows "normalizeHttpPath t (normalizeHttpPath t (JStr s)) = normalizeHttpPath t (JStr s)"
proof -
  have "map (normalize_segment t) (map (normalize_segment t) (split_slash s))
          = map (normalize_segment t) (split_slash s)"
    unfolding map_map
    by (rule map_cong[OF refl])
       (simp add: normalize_segment_idem[OF h1 h2] split_slash_no_slash)
  then show ?thesis
    by (simp only: normalizeHttpPath_segments split_normalizeHttpPath[OF h1])
qed

lemma normalizeHttpPath_idem:
  assumes h1: "\<forall>seg. seg \<noteq> [] \<and> CHR ''/'' \<notin> set seg \<and> CHR '':'' \<notin> set seg
             \<longrightarrow> CHR ''/'' \<notin> set (t seg) \<and> CHR '':'' \<notin> set (t seg)"
    and h2: "\<forall>seg. seg \<noteq> [] \<and> CHR ''/'' \<notin> set seg \<and> CHR '':'' \<notin> set seg \<and> t seg \<noteq> []
             \<longrightarrow> t (t seg) = t seg"
  shows "normalizeHttpPath t (normalizeHttpPath t p) = normalizeHttpPath t p"
proof (cases p)
  case (JStr s)
  with normalizeHttpPath_idem_string[OF h1 h2] show ?thesis by simp
qed (simp_all add: normalizeHttpPath_def)

lemma normalizeHttpPath_non_string: "\<not> is_string p \<Longrightarrow> normalizeHttpPath t p = JUndefined"
  by (cases p) (simp_all add: normalizeHttpPath_def is_string_def)

lemma inflection_transform_closed:
  "\<forall>seg. seg \<noteq> [] \<and> CHR ''/'' \<notin> set seg \<and> CHR '':'' \<notin> set seg
      \<longrightarrow> CHR ''/'' \<notin> set (inflection_transform seg) \<and> CHR '':'' \<notin> set (inflection_transform seg)"
  by (simp add: inflection_transform_no_slash inflection_transform_no_colon)

lemma inflection_transform_stable:
  "\<forall>seg. seg \<noteq> [] \<and> CHR ''/'' \<notin> set seg \<and> CHR '':'' \<notin> set seg \<and> inflection_transform seg \<noteq> []
      \<longrightarrow> inflection_transform (inflection_transform seg) = inflection_transform seg"
  by (simp add: inflection_transform_idem)

text \<open>
  Claim C4. Path normalization is idempotent: \<^verbatim>\<open>normalizeHttpPath\<close> applied twice
  gives what it gives applied once, for every transform that keeps \<^verbatim>\<open>/\<close> and
  \<^verbatim>\<open>:\<close> out of a segment free of them and leaves its own non-empty results
  unchanged, and so for the two-step transform (underscore, then dasherize). Every
  segment with the placeholder marker \<^verbatim>\<open>:\<close> is passed through unchanged: the result
  has the segments of the path, at the same positions, and those with \<^verbatim>\<open>:\<close> are the
  same. With normalization disabled the transform is the identity.
\<close>

theorem normalizeHttpPath_idempotent_keeps_placeholders:
  "((\<forall>seg. seg \<noteq> [] \<and> CHR ''/'' \<notin> set seg \<and> CHR '':'' \<notin> set seg
         \<longrightarrow> CHR ''/'' \<notin> set (t seg) \<and> CHR '':'' \<notin> set (t seg))
    \<and> (\<forall>seg. seg \<noteq> [] \<and> CHR ''/'' \<notin> set seg \<and> CHR '':'' \<notin> set seg \<and> t seg \<noteq> []
         \<longrightarrow> t (t seg) = t seg)
    \<longrightarrow> normalizeHttpPath t (normalizeHttpPath t p) = normalizeHttpPath t p
        \<and> (\<exists>r. normalizeHttpPath t (JStr s) = JStr r
               \<and> length (split_slash r) = length (split_slash s)
               \<and> (\<forall>i < length (split_slash s).
                     CHR '':'' \<in> set (split_slash s ! i) \<longrightarrow> split_slash r ! i = split_slash s ! i)))
   \<and> normalizeHttpPath inflection_transform (normalizeHttpPath inflection_transform p)
       = normalizeHttpPath inflection_transform p
   \<and> untransformedPath p = p"
proof (intro conjI impI)
  assume h: "(\<forall>seg. seg \<noteq> [] \<and> CHR ''/'' \<notin> set seg \<and> CHR '':'' \<notin> set seg
                \<longrightarrow> CHR ''/'' \<notin> set (t seg) \<and> CHR '':'' \<notin> set (t seg))
           \<and> (\<forall>seg. seg \<noteq> [] \<and> CHR ''/'' \<notin> set seg \<and> CHR '':'' \<notin> set seg \<and> t seg \<noteq> []
                \<longrightarrow> t (t seg) = t seg)"
  then have h1: "\<forall>seg. seg \<noteq> [] \<and> CHR ''/'' \<notin> set seg \<and> CHR '':'' \<notin> set seg
                  \<longrightarrow> CHR ''/'' \<notin> set (t seg) \<and> CHR '':'' \<notin> set (t seg)"
    and h2: "\<forall>seg. seg \<noteq> [] \<and> CHR ''/'' \<notin> set seg \<and> CHR '':'' \<notin> set seg \<and> t seg \<noteq> []
                  \<longrightarrow> t (t seg) = t seg"
    by blast+
  show "normalizeHttpPath t (normalizeHttpPath t p) = normalizeHttpPath t p"
    by (rule normalizeHttpPath_idem[OF h1 h2])
  let ?r = "join_slash (map (normalize_segment t) (split_slash s))"
  have sp: "split_slash ?r = map (normalize_segment t) (split_slash s)"
    by (rule split_normalizeHttpPath[OF h1])
  have "normalizeHttpPath t (JStr s) = JStr ?r"
    by (rule normalizeHttpPath_segments)
  moreover have "length (split_slash ?r) = length (split_slash s)"
    by (simp add: sp)
  moreover have "\<forall>i < length (split_slash s).
                   CHR '':'' \<in> set (split_slash s ! i) \<longrightarrow> split_slash ?r ! i = split_slash s ! i"
    by (simp add: sp normalize_segment_def)
  ultimately show "\<exists>r. normalizeHttpPath t (JStr s) = JStr r
                     \<and> length (split_slash r) = length (split_slash s)
                     \<and> (\<forall>i < length (split_slash s).
                           CHR '':'' \<in> set (split_slash s ! i)
                           \<longrightarrow> split_slash r ! i = split_slash s ! i)"
    by blast
next
  show "normalizeHttpPath inflection_transform (normalizeHttpPath inflection_transform p)
          = normalizeHttpPath inflection_transform p"
    by (rule normalizeHttpPath_idem[OF inflection_transform_closed inflection_transform_stable])
next
  show "untransformedPath p = p"
    by (simp add: untransformedPath_def)
qed

theorem normalizeHttpPath_idempotent_keeps_placeholders_witness:
  "normalizeHttpPath inflection_transform (JStr ''/FooBar/:Id'') = JStr ''/foo-bar/:Id''
   \<and> normalizeHttpPath inflection_transform (JStr ''/foo-bar/:Id'') = JStr ''/foo-bar/:Id''"
proof -
  have v: "normalizeHttpPath inflection_transform (JStr ''/FooBar/:Id'') = JStr ''/foo-bar/:Id''"
    by code_simp
  from normalizeHttpPath_idempotent_keeps_placeholders
         [of inflection_transform "JStr ''/FooBar/:Id''" "''/FooBar/:Id''"]
  have "(\<forall>seg. seg \<noteq> [] \<and> CHR ''/'' \<notin> set seg \<and> CHR '':'' \<notin> set seg
           \<longrightarrow> CHR ''/'' \<notin> set (inflection_transform seg)
               \<and> CHR '':'' \<notin> set (inflection_transform seg))
        \<and> (\<forall>seg. seg \<noteq> [] \<and> CHR ''/'' \<notin> set seg \<and> CHR '':'' \<notin> set seg
                 \<and> inflection_transform seg \<noteq> []
           \<longrightarrow> inflection_transform (inflection_transform seg) = inflection_transform seg)
        \<longrightarrow> normalizeHttpPath inflection_transform
              (normalizeHttpPath inflection_transform (JStr ''/FooBar/:Id''))
            = normalizeHttpPath inflection_transform (JStr ''/FooBar/:Id'')"
    by (elim conjE) (intro impI, elim impE, assumption, elim conjE, assumption)
  with inflection_transform_closed inflection_transform_stable
  have "normalizeHttpPath inflection_transform
          (normalizeHttpPath inflection_transform (JStr ''/FooBar/:Id''))
        = normalizeHttpPath inflection_transform (JStr ''/FooBar/:Id'')"
    by blast
  with v show ?thesis by simp
qed

section \<open>Properties of route derivation\<close>

lemma getRoutes_NoHttp:
  "http obj = NoHttp \<Longrightarrow>
   getRoutes t obj ao =
     [\<lparr>verb = ''all'',
       path = (if name obj = JStr ''sharedCtor'' then JStr ''/prototype''
               else if truthy (name obj)
                 then select_toPath t obj ao (JStr (''/'' @ to_str (name obj)))
               else JStr [])\<rparr>]"
  by (simp add: getRoutes_def)

lemma getRoutes_HttpArray:
  "http obj = HttpArray rs \<Longrightarrow>
   getRoutes t obj ao =
     map (\<lambda>r. \<lparr>verb = toLowerCase (to_str (if truthy (verb r) then verb r else JStr ''all'')),
               path = select_toPath t obj ao
                        (if truthy (path r) then path r else JStr (''/'' @ to_str (name obj)))\<rparr>) rs"
  by (simp add: getRoutes_def)

lemma getRoutes_HttpObject:
  "http obj = HttpObject r \<Longrightarrow>
   getRoutes t obj ao =
     [\<lparr>verb = toLowerCase (to_str (if truthy (verb r) then verb r else JStr ''all'')),
       path = select_toPath t obj ao
                (if truthy (path r) then path r else JStr (''/'' @ to_str (name obj)))\<rparr>]"
  by (simp add: getRoutes_def)

lemma effective_normalize_precedence:
  "effective_normalize obj ao =
     (let class_flag = (case (case sharedClass obj of Some opts \<Rightarrow> opts | None \<Rightarrow> options obj) of
                          Some co \<Rightarrow> opt_normalizeHttpPath co | None \<Rightarrow> JUndefined);
          adapter_flag = (case ao of Some a \<Rightarrow> opt_normalizeHttpPath a | None \<Rightarrow> JUndefined)
      in if class_flag \<noteq> JUndefined then class_flag else adapter_flag)"
  by (auto simp: effective_normalize_def Let_def split: option.splits)

text \<open>
  Claim C5. For an entity with no declared http routes \<^verbatim>\<open>getRoutes\<close> returns exactly
  one route, of verb \<^verbatim>\<open>all\<close>: its path is \<^verbatim>\<open>/prototype\<close>, not normalized, for the
  shared constructor, otherwise \<^verbatim>\<open>toPath('/' + name)\<close>, or the empty string when
  the entity has no name. For every declared route, a missing verb becomes \<^verbatim>\<open>all\<close>
  and the verb is stored lowercased; a missing path becomes \<^verbatim>\<open>'/' + name\<close>; the path
  goes through \<^verbatim>\<open>toPath\<close>. \<^verbatim>\<open>toPath\<close> is the normalizer when the class-level option
  \<^verbatim>\<open>normalizeHttpPath\<close>, or the adapter-wide one if that is undefined, is truthy, and
  the identity otherwise.
\<close>

theorem getRoutes_default_route_derivation:
  "(http obj = NoHttp \<longrightarrow>
      getRoutes t obj ao =
        [\<lparr>verb = ''all'',
          path = (if name obj = JStr ''sharedCtor'' then JStr ''/prototype''
                  else if truthy (name obj)
                    then select_toPath t obj ao (JStr (''/'' @ to_str (name obj)))
                  else JStr [])\<rparr>])
   \<and> (http obj = HttpObject r \<longrightarrow>
        getRoutes t obj ao =
          [\<lparr>verb = toLowerCase (if truthy (verb r) then to_str (verb r) else ''all''),
            path = select_toPath t obj ao
                     (if truthy (path r) then path r else JStr (''/'' @ to_str (name obj)))\<rparr>])
   \<and> (http obj = HttpArray rs \<longrightarrow>
        length (getRoutes t obj ao) = length rs
        \<and> (\<forall>i < length rs.
              verb (getRoutes t obj ao ! i)
                = toLowerCase (if truthy (verb (rs ! i)) then to_str (verb (rs ! i)) else ''all'')
              \<and> path (getRoutes t obj ao ! i)
                  = select_toPath t obj ao
                      (if truthy (path (rs ! i)) then path (rs ! i)
                       else JStr (''/'' @ to_str (name obj)))))
   \<and> select_toPath t obj ao =
       (let class_flag = (case (case sharedClass obj of Some opts \<Rightarrow> opts | None \<Rightarrow> options obj) of
                            Some co \<Rightarrow> opt_normalizeHttpPath co | None \<Rightarrow> JUndefined);
            adapter_flag = (case ao of Some a \<Rightarrow> opt_normalizeHttpPath a | None \<Rightarrow> JUndefined)
        in if truthy (if class_flag \<noteq> JUndefined then class_flag else adapter_flag)
           then normalizeHttpPath t else untransformedPath)"
proof (intro conjI impI)
  assume "http obj = NoHttp"
  then show "getRoutes t obj ao =
        [\<lparr>verb = ''all'',
          path = (if name obj = JStr ''sharedCtor'' then JStr ''/prototype''
                  else if truthy (name obj)
                    then select_toPath t obj ao (JStr (''/'' @ to_str (name obj)))
                  else JStr [])\<rparr>]"
    by (rule getRoutes_NoHttp)
next
  assume "http obj = HttpObject r"
  then show "getRoutes t obj ao =
          [\<lparr>verb = toLowerCase (if truthy (verb r) then to_str (verb r) else ''all''),
            path = select_toPath t obj ao
                     (if truthy (path r) then path r else JStr (''/'' @ to_str (name obj)))\<rparr>]"
    by (simp add: getRoutes_HttpObject to_str_def)
next
  assume a: "http obj = HttpArray rs"
  then show "length (getRoutes t obj ao) = length rs"
    by (simp add: getRoutes_HttpArray)
  from a show "\<forall>i < length rs.
              verb (getRoutes t obj ao ! i)
                = toLowerCase (if truthy (verb (rs ! i)) then to_str (verb (rs ! i)) else ''all'')
              \<and> path (getRoutes t obj ao ! i)
                  = select_toPath t obj ao
                      (if truthy (path (rs ! i)) then path (rs ! i)
                       else JStr (''/'' @ to_str (name obj)))"
    by (simp add: getRoutes_HttpArray to_str_def)
next
  show "select_toPath t obj ao =
       (let class_flag = (case (case sharedClass obj of Some opts \<Rightarrow> opts | None \<Rightarrow> options obj) of
                            Some co \<Rightarrow> opt_normalizeHttpPath co | None \<Rightarrow> JUndefined);
            adapter_flag = (case ao of Some a \<Rightarrow> opt_normalizeHttpPath a | None \<Rightarrow> JUndefined)
        in if truthy (if class_flag \<noteq> JUndefined then class_flag else adapter_flag)
           then normalizeHttpPath t else untransformedPath)"
    unfolding select_toPath_def effective_normalize_precedence[of obj ao] Let_def by (rule refl)
qed

theorem getRoutes_default_route_derivation_witness:
  "getRoutes inflection_transform
     \<lparr>name = JStr ''findById'', http = NoHttp, options = None, sharedClass = Some None\<rparr>
     (Some \<lparr>opt_normalizeHttpPath = JBool True\<rparr>)
     = [\<lparr>verb = ''all'', path = JStr ''/find-by-id''\<rparr>]
   \<and> getRoutes inflection_transform
       \<lparr>name = JStr ''findById'', http = HttpObject \<lparr>verb = JUndefined, path = JUndefined\<rparr>,
        options = None, sharedClass = Some (Some \<lparr>opt_normalizeHttpPath = JBool False\<rparr>)\<rparr>
       (Some \<lparr>opt_normalizeHttpPath = JBool True\<rparr>)
       = [\<lparr>verb = ''all'', path = JStr ''/findById''\<rparr>]
   \<and> map verb (getRoutes inflection_transform
       \<lparr>name = JStr ''findById'',
        http = HttpArray [\<lparr>verb = JStr ''GET'', path = JStr ''/:id''\<rparr>],
        options = None, sharedClass = None\<rparr> None) = [''get'']"
proof (intro conjI)
  let ?ao = "Some \<lparr>opt_normalizeHttpPath = JBool True\<rparr>"
  let ?o1 = "\<lparr>name = JStr ''findById'', http = NoHttp, options = None, sharedClass = Some None\<rparr>"
  have "select_toPath inflection_transform ?o1 ?ao (JStr (''/'' @ to_str (name ?o1)))
          = JStr ''/find-by-id''"
    by code_simp
  with getRoutes_default_route_derivation[where obj="?o1" and t=inflection_transform and ao="?ao"]
  show "getRoutes inflection_transform ?o1 ?ao = [\<lparr>verb = ''all'', path = JStr ''/find-by-id''\<rparr>]"
    by (simp add: truthy_def)
next
  let ?ao = "Some \<lparr>opt_normalizeHttpPath = JBool True\<rparr>"
  let ?r = "\<lparr>verb = JUndefined, path = JUndefined\<rparr>"
  let ?o2 = "\<lparr>name = JStr ''findById'', http = HttpObject ?r,
              options = None, sharedClass = Some (Some \<lparr>opt_normalizeHttpPath = JBool False\<rparr>)\<rparr>"
  have "select_toPath inflection_transform ?o2 ?ao (JStr (''/'' @ to_str (name ?o2)))
          = JStr ''/findById''"
    by code_simp
  moreover have "toLowerCase ''all'' = ''all''"
    by code_simp
  ultimately show "getRoutes inflection_transform ?o2 ?ao = [\<lparr>verb = ''all'', path = JStr ''/findById''\<rparr>]"
    using getRoutes_default_route_derivation[where obj="?o2" and r="?r" and t=inflection_transform and ao="?ao"]
    by (simp add: truthy_def)
next
  let ?rs = "[\<lparr>verb = JStr ''GET'', path = JStr ''/:id''\<rparr>]"
  let ?o3 = "\<lparr>name = JStr ''findById'', http = HttpArray ?rs, options = None, sharedClass = None\<rparr>"
  have low: "toLowerCase ''GET'' = ''get''"
    by code_simp
  from getRoutes_default_route_derivation[where obj="?o3" and rs="?rs" and t=inflection_transform and ao=None]
  have len: "length (getRoutes inflection_transform ?o3 None) = 1"
    and v: "verb (getRoutes inflection_transform ?o3 None ! 0) = ''get''"
    by (simp_all add: truthy_def to_str_def low)
  from len obtain x where "getRoutes inflection_transform ?o3 None = [x]"
    by (cases "getRoutes inflection_transform ?o3 None") auto
  with v show "map verb (getRoutes inflection_transform ?o3 None) = [''get'']"
    by simp
qed

text \<open>
  Claim C10, as stated, fails for a declared path that is not a string and is falsy:
  the default \<^verbatim>\<open>'/' + name\<close> replaces it before normalization, and the route has a
  string path.
\<close>

theorem getRoutes_undefined_path_gets_default:
  "getRoutes inflection_transform
     \<lparr>name = JStr ''find'', http = HttpObject \<lparr>verb = JStr ''GET'', path = JUndefined\<rparr>,
      options = None, sharedClass = None\<rparr>
     (Some \<lparr>opt_normalizeHttpPath = JBool True\<rparr>)
   = [\<lparr>verb = ''get'', path = JStr ''/find''\<rparr>]"
  by code_simp

text \<open>
  Claim C10, amended. For every input that is not a string \<^verbatim>\<open>normalizeHttpPath\<close>
  returns \<^verbatim>\<open>undefined\<close>. Consequently, with normalization enabled, a declared route
  whose path is not a string and is truthy (a non-zero number, \<^verbatim>\<open>true\<close>, an object)
  yields a route whose path is \<^verbatim>\<open>undefined\<close>; a declared path that is falsy
  (\<^verbatim>\<open>undefined\<close>, \<^verbatim>\<open>null\<close>, \<^verbatim>\<open>false\<close>, \<^verbatim>\<open>0\<close>, the empty string) is replaced by
  \<^verbatim>\<open>'/' + name\<close> first and yields a string path.
\<close>

theorem normalizeHttpPath_non_string_is_undefined:
  "(\<not> is_string v \<longrightarrow> normalizeHttpPath t v = JUndefined)
   \<and> (truthy (effective_normalize obj ao) \<and> http obj = HttpArray rs \<and> i < length rs
        \<and> \<not> is_string (path (rs ! i)) \<and> truthy (path (rs ! i))
      \<longrightarrow> path (getRoutes t obj ao ! i) = JUndefined)
   \<and> (truthy (effective_normalize obj ao) \<and> http obj = HttpObject r
        \<and> \<not> is_string (path r) \<and> truthy (path r)
      \<longrightarrow> map path (getRoutes t obj ao) = [JUndefined])
   \<and> (truthy (effective_normalize obj ao) \<and> http obj = HttpArray rs \<and> i < length rs
        \<and> \<not> truthy (path (rs ! i))
      \<longrightarrow> is_string (path (getRoutes t obj ao ! i)))"
proof (intro conjI impI)
  assume "\<not> is_string v"
  then show "normalizeHttpPath t v = JUndefined"
    by (rule normalizeHttpPath_non_string)
next
  assume "truthy (effective_normalize obj ao) \<and> http obj = HttpArray rs \<and> i < length rs
            \<and> \<not> is_string (path (rs ! i)) \<and> truthy (path (rs ! i))"
  then show "path (getRoutes t obj ao ! i) = JUndefined"
    by (simp add: getRoutes_HttpArray select_toPath_def normalizeHttpPath_non_string)
next
  assume "truthy (effective_normalize obj ao) \<and> http obj = HttpObject r
            \<and> \<not> is_string (path r) \<and> truthy (path r)"
  then show "map path (getRoutes t obj ao) = [JUndefined]"
    by (simp add: getRoutes_HttpObject select_toPath_def normalizeHttpPath_non_string)
next
  assume "truthy (effective_normalize obj ao) \<and> http obj = HttpArray rs \<and> i < length rs
            \<and> \<not> truthy (path (rs ! i))"
  then show "is_string (path (getRoutes t obj ao ! i))"
    by (simp add: getRoutes_HttpArray select_toPath_def normalizeHttpPath_def is_string_def)
qed

theorem normalizeHttpPath_non_string_is_undefined_witness:
  "normalizeHttpPath inflection_transform (JNum 5) = JUndefined
   \<and> path (getRoutes inflection_transform
       \<lparr>name = JStr ''find'', http = HttpArray [\<lparr>verb = JStr ''GET'', path = JObj\<rparr>],
        options = None, sharedClass = None\<rparr>
       (Some \<lparr>opt_normalizeHttpPath = JBool True\<rparr>) ! 0) = JUndefined
   \<and> map path (getRoutes inflection_transform
       \<lparr>name = JStr ''find'', http = HttpObject \<lparr>verb = JStr ''GET'', path = JNum 5\<rparr>,
        options = None, sharedClass = None\<rparr>
       (Some \<lparr>opt_normalizeHttpPath = JBool True\<rparr>)) = [JUndefined]
   \<and> is_string (path (getRoutes inflection_transform
       \<lparr>name = JStr ''find'', http = HttpArray [\<lparr>verb = JStr ''GET'', path = JNull\<rparr>],
        options = None, sharedClass = None\<rparr>
       (Some \<lparr>opt_normalizeHttpPath = JBool True\<rparr>) ! 0))"
proof (intro conjI)
  let ?ao = "Some \<lparr>opt_normalizeHttpPath = JBool True\<rparr>"
  show "normalizeHttpPath inflection_transform (JNum 5) = JUndefined"
    using normalizeHttpPath_non_string_is_undefined
            [where v="JNum 5" and t=inflection_transform, THEN conjunct1]
    by (simp add: is_string_def)
  let ?o1 = "\<lparr>name = JStr ''find'', http = HttpArray [\<lparr>verb = JStr ''GET'', path = JObj\<rparr>],
              options = None, sharedClass = None\<rparr>"
  have e1: "truthy (effective_normalize ?o1 ?ao)" by code_simp
  show "path (getRoutes inflection_transform ?o1 ?ao ! 0) = JUndefined"
    using normalizeHttpPath_non_string_is_undefined
            [where t=inflection_transform and obj="?o1" and ao="?ao"
               and rs="[\<lparr>verb = JStr ''GET'', path = JObj\<rparr>]" and i=0,
             THEN conjunct2, THEN conjunct1] e1
    by (simp add: is_string_def truthy_def)
  let ?o2 = "\<lparr>name = JStr ''find'', http = HttpObject \<lparr>verb = JStr ''GET'', path = JNum 5\<rparr>,
              options = None, sharedClass = None\<rparr>"
  have e2: "truthy (effective_normalize ?o2 ?ao)" by code_simp
  show "map path (getRoutes inflection_transform ?o2 ?ao) = [JUndefined]"
    using normalizeHttpPath_non_string_is_undefined
            [where t=inflection_transform and obj="?o2" and ao="?ao"
               and r="\<lparr>verb = JStr ''GET'', path = JNum 5\<rparr>",
             THEN conjunct2, THEN conjunct2, THEN conjunct1] e2
    by (simp add: is_string_def truthy_def)
  let ?o3 = "\<lparr>name = JStr ''find'', http = HttpArray [\<lparr>verb = JStr ''GET'', path = JNull\<rparr>],
              options = None, sharedClass = None\<rparr>"
  have e3: "truthy (effective_normalize ?o3 ?ao)" by code_simp
  show "is_string (path (getRoutes inflection_transform ?o3 ?ao ! 0))"
    using normalizeHttpPath_non_string_is_undefined
            [where t=inflection_transform and obj="?o3" and ao="?ao"
               and rs="[\<lparr>verb = JStr ''GET'', path = JNull\<rparr>]" and i=0,
             THEN conjunct2, THEN conjunct2, THEN conjunct2] e3
    by (simp add: truthy_def)
qed

section \<open>Properties of the routes of a method\<close>

lemma getRoutes_not_Nil: "http obj \<noteq> HttpArray [] \<Longrightarrow> getRoutes t obj ao \<noteq> []"
  by (cases "http obj") (auto simp: getRoutes_def)

lemma RestMethod_routes_no_ctor: "routes (RestMethod t ao None sm) = getRoutes t sm ao"
  by (simp add: RestMethod_def)

lemma RestMethod_routes_static:
  "isStatic sm \<Longrightarrow> routes (RestMethod t ao (Some c) sm) = getRoutes t sm ao"
  by (simp add: RestMethod_def)

lemma RestMethod_routes_prototype:
  "\<not> isStatic sm \<Longrightarrow>
   routes (RestMethod t ao (Some c) sm) =
     concat (map (\<lambda>m. map (\<lambda>cr. m\<lparr>path := joinPaths (path cr) (path m)\<rparr>) (routes c))
                 (getRoutes t sm ao))"
  by (simp add: RestMethod_def)

lemma joinPaths_prefix: "\<exists>rest. joinPaths (JStr l) (JStr r) = JStr (l @ rest)"
  by (simp add: joinPaths_strings)

lemma RestClass_with_ctor:
  "sharedCtor sc = Some k \<Longrightarrow>
   ctor (RestClass t sc ao) = Some (RestMethod t ao None k)
   \<and> methods (RestClass t sc ao) =
       map (RestMethod t ao (Some (RestMethod t ao None k)))
           (filter (\<lambda>sm. \<not> isSharedCtor sm) (sc_methods sc))"
  by (simp add: RestClass_def Let_def)

text \<open>
  Claim C6: every method yields a non-empty route list, and the routes of a non-static
  method of a class with a shared constructor are the cross product of the
  constructor's routes and the method's (\<open>RestMethod_routes_prototype\<close>). The code
  breaks the first part on a declared empty array of routes: the array is truthy, so
  \<^verbatim>\<open>getRoutes\<close> takes it for the declared routes and returns no route, where the
  sibling cases build one (\<open>getRoutes_not_Nil\<close>). For every method that declares
  \<^verbatim>\<open>http: []\<close> the route list is empty and \<^verbatim>\<open>getPath\<close>, which reads the first
  route, raises a \<^verbatim>\<open>TypeError\<close>; a constructor that declares \<^verbatim>\<open>http: []\<close> leaves
  every instance method of its class without a route; a class that declares it has no
  route to be mounted on. The same method without \<^verbatim>\<open>http\<close> has its one default
  route.
\<close>

theorem RestMethod_empty_http_array_no_route:
  "routes (RestMethod t ao None (sm\<lparr>http := HttpArray []\<rparr>)) = []
   \<and> RestMethod_getPath (RestMethod t ao None (sm\<lparr>http := HttpArray []\<rparr>)) = Inl TypeError
   \<and> routes (RestMethod t ao (Some (RestMethod t ao None (k\<lparr>http := HttpArray []\<rparr>)))
               (sm\<lparr>isStatic := False\<rparr>)) = []
   \<and> class_routes (RestClass t (sc\<lparr>http := HttpArray []\<rparr>) ao) = []
   \<and> RestClass_getPath (RestClass t (sc\<lparr>http := HttpArray []\<rparr>) ao) = Inl TypeError
   \<and> routes (RestMethod inflection_transform None None
        \<lparr>name = JStr ''find'', http = HttpArray [], options = None, sharedClass = Some None,
         isStatic = True, isSharedCtor = False, stringName = ''Widget.find''\<rparr>) = []
   \<and> routes (RestMethod inflection_transform None None
        \<lparr>name = JStr ''find'', http = NoHttp, options = None, sharedClass = Some None,
         isStatic = True, isSharedCtor = False, stringName = ''Widget.find''\<rparr>)
       = [\<lparr>verb = ''all'', path = JStr ''/find''\<rparr>]"
proof (intro conjI)
  show 1: "routes (RestMethod t ao None (sm\<lparr>http := HttpArray []\<rparr>)) = []"
    by (simp add: RestMethod_def getRoutes_def)
  show "RestMethod_getPath (RestMethod t ao None (sm\<lparr>http := HttpArray []\<rparr>)) = Inl TypeError"
    by (simp add: RestMethod_getPath_def 1)
  have k: "routes (RestMethod t ao None (k\<lparr>http := HttpArray []\<rparr>)) = []"
    by (simp add: RestMethod_def getRoutes_def)
  show "routes (RestMethod t ao (Some (RestMethod t ao None (k\<lparr>http := HttpArray []\<rparr>)))
               (sm\<lparr>isStatic := False\<rparr>)) = []"
    by (simp add: RestMethod_routes_prototype k)
  show 2: "class_routes (RestClass t (sc\<lparr>http := HttpArray []\<rparr>) ao) = []"
    by (simp add: RestClass_def Let_def getRoutes_def)
  show "RestClass_getPath (RestClass t (sc\<lparr>http := HttpArray []\<rparr>) ao) = Inl TypeError"
    by (simp add: RestClass_getPath_def 2)
  show "routes (RestMethod inflection_transform None None
        \<lparr>name = JStr ''find'', http = HttpArray [], options = None, sharedClass = Some None,
         isStatic = True, isSharedCtor = False, stringName = ''Widget.find''\<rparr>) = []"
    by (simp add: RestMethod_def getRoutes_def)
  show "routes (RestMethod inflection_transform None None
        \<lparr>name = JStr ''find'', http = NoHttp, options = None, sharedClass = Some None,
         isStatic = True, isSharedCtor = False, stringName = ''Widget.find''\<rparr>)
       = [\<lparr>verb = ''all'', path = JStr ''/find''\<rparr>]"
    by code_simp
qed

section \<open>Properties of the name index\<close>

lemma getRestMethodByName_miss:
  assumes "cachedRestMethodsByName this = None
           \<or> (\<exists>cache. cachedRestMethodsByName this = Some cache \<and> get_property cache nm = Missing)"
  shows "getRestMethodByName classes en nm this =
           (case get_property (createRestMethodByNameCache classes) nm of
              Missing \<Rightarrow> Inr None
            | Inherited \<Rightarrow> Inl TypeError
            | Own m \<Rightarrow> if en (sharedMethod m) then Inr (Some m) else Inr None,
            this\<lparr>cachedRestMethodsByName := Some (createRestMethodByNameCache classes),
                 rebuilds := rebuilds this + 1\<rparr>)"
  using assms
  by (auto simp: getRestMethodByName_def Let_def split: option.splits property.splits)

lemma getRestMethodByName_hit:
  assumes "cachedRestMethodsByName this = Some cache" and "cache nm = Some m"
  shows "getRestMethodByName classes en nm this =
           (if en (sharedMethod m) then Inr (Some m) else Inr None, this)"
  using assms
  by (auto simp: getRestMethodByName_def get_property_def Let_def)

lemma getRestMethodByName_enabled:
  "fst (getRestMethodByName classes en nm this) = Inr (Some m) \<Longrightarrow> en (sharedMethod m)"
  by (auto simp: getRestMethodByName_def Let_def split: option.splits property.splits if_splits)

lemma getRestMethodByName_rebuilds:
  "rebuilds (snd (getRestMethodByName classes en nm this)) \<le> rebuilds this + 1"
  by (auto simp: getRestMethodByName_def Let_def split: option.splits property.splits if_splits)


lemma dom_fold_methods:
  "dom (fold (\<lambda>restMethod m'. m'(fullName restMethod \<mapsto> restMethod)) ms m)
     = dom m \<union> fullName ` set ms"
  by (induction ms arbitrary: m) auto

lemma dom_createRestMethodByNameCache:
  "dom (createRestMethodByNameCache classes) = fullName ` (\<Union>c \<in> set classes. set (methods c))"
proof -
  have "dom (fold (\<lambda>restClass m. fold (\<lambda>restMethod m'. m'(fullName restMethod \<mapsto> restMethod))
                                      (methods restClass) m) classes m0)
          = dom m0 \<union> fullName ` (\<Union>c \<in> set classes. set (methods c))" for m0 :: "string \<rightharpoonup> ('a, 'b) rest_method"
    by (induction classes arbitrary: m0) (auto simp: dom_fold_methods)
  from this[of Map.empty] show ?thesis by (simp add: createRestMethodByNameCache_def)
qed

text \<open>
  Claim C7. \<^verbatim>\<open>getRestMethodByName\<close> returns \<^verbatim>\<open>undefined\<close> whenever the method found
  under the name fails the live \<^verbatim>\<open>isMethodEnabled\<close> check, also when the method
  comes from the cached map, which is left as it is; a method it returns is enabled.
  On a lookup that misses the cache, or when there is no cache yet, the whole cache is
  rebuilt exactly once from the current classes, holding every full name of their
  methods, and the lookup is answered from the new cache; on a hit the cache is not
  rebuilt.
\<close>

theorem getRestMethodByName_masks_disabled_rebuilds_once:
  "(cachedRestMethodsByName this = Some cache \<and> cache nm = Some m \<and> \<not> en (sharedMethod m)
      \<longrightarrow> getRestMethodByName classes en nm this = (Inr None, this))
   \<and> (fst (getRestMethodByName classes en nm this) = Inr (Some m') \<longrightarrow> en (sharedMethod m'))
   \<and> (cachedRestMethodsByName this = None
        \<or> (\<exists>c. cachedRestMethodsByName this = Some c \<and> get_property c nm = Missing)
      \<longrightarrow> snd (getRestMethodByName classes en nm this)
            = this\<lparr>cachedRestMethodsByName := Some (createRestMethodByNameCache classes),
                   rebuilds := rebuilds this + 1\<rparr>
          \<and> fst (getRestMethodByName classes en nm this)
            = (case get_property (createRestMethodByNameCache classes) nm of
                 Missing \<Rightarrow> Inr None
               | Inherited \<Rightarrow> Inl TypeError
               | Own x \<Rightarrow> if en (sharedMethod x) then Inr (Some x) else Inr None))
   \<and> (cachedRestMethodsByName this = Some cache \<and> get_property cache nm \<noteq> Missing
      \<longrightarrow> snd (getRestMethodByName classes en nm this) = this)
   \<and> dom (createRestMethodByNameCache classes)
       = fullName ` (\<Union>c \<in> set classes. set (methods c))"
proof (intro conjI impI)
  assume "cachedRestMethodsByName this = Some cache \<and> cache nm = Some m \<and> \<not> en (sharedMethod m)"
  then show "getRestMethodByName classes en nm this = (Inr None, this)"
    by (simp add: getRestMethodByName_hit)
next
  assume "fst (getRestMethodByName classes en nm this) = Inr (Some m')"
  then show "en (sharedMethod m')"
    by (rule getRestMethodByName_enabled)
next
  assume miss: "cachedRestMethodsByName this = None
        \<or> (\<exists>c. cachedRestMethodsByName this = Some c \<and> get_property c nm = Missing)"
  show "snd (getRestMethodByName classes en nm this)
            = this\<lparr>cachedRestMethodsByName := Some (createRestMethodByNameCache classes),
                   rebuilds := rebuilds this + 1\<rparr>"
    by (simp add: getRestMethodByName_miss[OF miss])
  show "fst (getRestMethodByName classes en nm this)
            = (case get_property (createRestMethodByNameCache classes) nm of
                 Missing \<Rightarrow> Inr None
               | Inherited \<Rightarrow> Inl TypeError
               | Own x \<Rightarrow> if en (sharedMethod x) then Inr (Some x) else Inr None)"
    by (simp add: getRestMethodByName_miss[OF miss])
next
  assume "cachedRestMethodsByName this = Some cache \<and> get_property cache nm \<noteq> Missing"
  then show "snd (getRestMethodByName classes en nm this) = this"
    by (auto simp: getRestMethodByName_def Let_def split: property.splits)
next
  show "dom (createRestMethodByNameCache classes)
       = fullName ` (\<Union>c \<in> set classes. set (methods c))"
    by (rule dom_createRestMethodByNameCache)
qed

theorem getRestMethodByName_masks_disabled_rebuilds_once_witness:
  "getRestMethodByName
     [\<lparr>class_routes = [], ctor = None,
       methods = [\<lparr>fullName = ''Widget.find'', routes = [] :: (string, string) route list,
                   sharedMethod = (7::nat)\<rparr>]\<rparr>]
     (\<lambda>sm. False) ''Widget.find''
     \<lparr>cachedRestMethodsByName =
        Some [''Widget.find'' \<mapsto> \<lparr>fullName = ''Widget.find'', routes = [], sharedMethod = 7\<rparr>],
      rebuilds = 0\<rparr>
   = (Inr None,
      \<lparr>cachedRestMethodsByName =
         Some [''Widget.find'' \<mapsto> \<lparr>fullName = ''Widget.find'', routes = [], sharedMethod = 7\<rparr>],
       rebuilds = 0\<rparr>)
   \<and> rebuilds (snd (getRestMethodByName
       [\<lparr>class_routes = [], ctor = None,
         methods = [\<lparr>fullName = ''Widget.find'', routes = [] :: (string, string) route list,
                     sharedMethod = (7::nat)\<rparr>]\<rparr>]
       (\<lambda>sm. True) ''Widget.find'' \<lparr>cachedRestMethodsByName = None, rebuilds = 0\<rparr>)) = 1
   \<and> fst (getRestMethodByName
       [\<lparr>class_routes = [], ctor = None,
         methods = [\<lparr>fullName = ''Widget.find'', routes = [] :: (string, string) route list,
                     sharedMethod = (7::nat)\<rparr>]\<rparr>]
       (\<lambda>sm. True) ''Widget.find'' \<lparr>cachedRestMethodsByName = None, rebuilds = 0\<rparr>)
     = Inr (Some \<lparr>fullName = ''Widget.find'', routes = [], sharedMethod = 7\<rparr>)"
proof (intro conjI)
  let ?m = "\<lparr>fullName = ''Widget.find'', routes = [], sharedMethod = (7::nat)\<rparr>
              :: (string, nat) rest_method"
  let ?classes = "[\<lparr>class_routes = [], ctor = None, methods = [?m]\<rparr>]"
  let ?cache = "[''Widget.find'' \<mapsto> ?m]"
  let ?this = "\<lparr>cachedRestMethodsByName = Some ?cache, rebuilds = 0\<rparr>"
  let ?fresh = "\<lparr>cachedRestMethodsByName = None, rebuilds = 0\<rparr>
                  :: (string, nat) adapter"
  from getRestMethodByName_masks_disabled_rebuilds_once
         [where this="?this" and cache="?cache" and nm="''Widget.find''" and m="?m"
            and en="\<lambda>sm. False" and classes="?classes", THEN conjunct1]
  show "getRestMethodByName ?classes (\<lambda>sm. False) ''Widget.find'' ?this = (Inr None, ?this)"
    by simp
  have own: "get_property (createRestMethodByNameCache ?classes) ''Widget.find'' = Own ?m"
    by (simp add: createRestMethodByNameCache_def get_property_def)
  note miss = getRestMethodByName_masks_disabled_rebuilds_once
         [where this="?fresh" and nm="''Widget.find''" and en="\<lambda>sm. True" and classes="?classes",
          THEN conjunct2, THEN conjunct2, THEN conjunct1]
  from miss show "rebuilds (snd (getRestMethodByName ?classes (\<lambda>sm. True) ''Widget.find'' ?fresh)) = 1"
    by simp
  from miss own show "fst (getRestMethodByName ?classes (\<lambda>sm. True) ''Widget.find'' ?fresh) = Inr (Some ?m)"
    by simp
qed

section \<open>Properties of the invocation pipeline\<close>




section \<open>Properties of the handler construction\<close>

lemma sortRoutes_any_strings:
  "is_string (path (route r1)) \<Longrightarrow> is_string (path (route r2)) \<Longrightarrow>
   sortRoutes_any r1 r2 = Inr (sortRoutes (typed_entry r1) (typed_entry r2))"
  by (auto simp: sortRoutes_any_def sortRoutes_def typed_entry_def Let_def)

lemma sortRoutes_any_error: "sortRoutes_any r1 r2 = Inl e \<Longrightarrow> e = TypeError"
  by (auto simp: sortRoutes_any_def Let_def split: if_splits)

lemma array_insert_throwing_strings:
  "\<forall>e \<in> set (x # ys). is_string (path (route e)) \<Longrightarrow>
   array_insert_throwing sortRoutes_any x ys
     = Inr (array_insert (\<lambda>a b. sortRoutes (typed_entry a) (typed_entry b)) x ys)"
  by (induction ys) (auto simp: sortRoutes_any_strings)

lemma set_array_sort: "set (array_sort cmp xs) = set xs"
  by (induction xs) (auto simp: set_array_insert)

lemma array_sort_throwing_strings:
  "\<forall>e \<in> set xs. is_string (path (route e)) \<Longrightarrow>
   array_sort_throwing sortRoutes_any xs
     = Inr (array_sort (\<lambda>a b. sortRoutes (typed_entry a) (typed_entry b)) xs)"
proof (induction xs)
  case Nil
  show ?case by simp
next
  case (Cons x xs)
  then have "\<forall>e \<in> set (x # array_sort (\<lambda>a b. sortRoutes (typed_entry a) (typed_entry b)) xs).
               is_string (path (route e))"
    by (simp add: set_array_sort)
  from array_insert_throwing_strings[OF this] Cons show ?case by simp
qed

lemma array_insert_throwing_error:
  "array_insert_throwing sortRoutes_any x ys = Inl e \<Longrightarrow> e = TypeError"
  by (induction ys) (auto split: sum.splits if_splits dest: sortRoutes_any_error)

lemma array_sort_throwing_error:
  "array_sort_throwing sortRoutes_any xs = Inl e \<Longrightarrow> e = TypeError"
  by (induction xs) (auto split: sum.splits dest: array_insert_throwing_error)

lemma forEach_throwing_error:
  "(\<And>x e. f x = Inl e \<Longrightarrow> e = TypeError) \<Longrightarrow> forEach_throwing f xs = Inl e \<Longrightarrow> e = TypeError"
  by (induction xs) (auto split: sum.splits)

lemma forEach_throwing_all:
  "\<forall>x \<in> set xs. f x = Inr (g x) \<Longrightarrow> forEach_throwing f xs = Inr (map g xs)"
  by (induction xs) auto

lemma registerMethodRouteHandlers_error:
  "registerMethodRouteHandlers rh m = Inl e \<Longrightarrow> e = TypeError"
  by (auto simp: registerMethodRouteHandlers_def Let_def split: if_splits)

lemma class_router_of_error:
  assumes "class_router_of rh c = Inl e"
  shows "e = TypeError"
proof (cases "array_sort_throwing sortRoutes_any (class_entries c)")
  case (Inl e')
  with assms have "e' = e" by (simp add: class_router_of_def)
  with Inl show ?thesis by (auto dest: array_sort_throwing_error)
next
  case (Inr ms)
  with assms have "forEach_throwing (registerMethodRouteHandlers rh) ms = Inl e"
    by (simp add: class_router_of_def split: sum.splits)
  then show ?thesis
    by (rule forEach_throwing_error[rotated]) (rule registerMethodRouteHandlers_error)
qed

lemma createHandler_no_config_error_later:
  "forEach_throwing (class_router_of rh) classes \<noteq> Inl ConfigError"
proof
  assume "forEach_throwing (class_router_of rh) classes = Inl ConfigError"
  then have "ConfigError = TypeError"
    by (rule forEach_throwing_error[rotated]) (rule class_router_of_error)
  then show False by simp
qed

lemma class_router_of_well_formed:
  assumes "\<forall>m \<in> set (class_entries c).
             is_string (path (route m))
             \<and> rh (if verb (route m) = ''del'' then ''delete'' else verb (route m))"
  shows "class_router_of rh c =
           Inr \<lparr>registered =
                  map (\<lambda>m. \<lparr>route = \<lparr>verb = (if verb (route m) = ''del'' then ''delete''
                                              else verb (route m)),
                                      path = path (route m)\<rparr>,
                            entry_method = entry_method m\<rparr>)
                      (array_sort (\<lambda>a b. sortRoutes (typed_entry a) (typed_entry b))
                                  (class_entries c)),
                mounted_on = map path (class_routes c)\<rparr>"
proof -
  let ?sorted = "array_sort (\<lambda>a b. sortRoutes (typed_entry a) (typed_entry b)) (class_entries c)"
  let ?reg = "\<lambda>m. \<lparr>route = \<lparr>verb = (if verb (route m) = ''del'' then ''delete''
                                      else verb (route m)),
                              path = path (route m)\<rparr>,
                    entry_method = entry_method m\<rparr>"
  have sort: "array_sort_throwing sortRoutes_any (class_entries c) = Inr ?sorted"
    using assms by (intro array_sort_throwing_strings) simp
  have "\<forall>m \<in> set ?sorted. registerMethodRouteHandlers rh m = Inr (?reg m)"
    using assms by (simp add: set_array_sort registerMethodRouteHandlers_def Let_def)
  then have "forEach_throwing (registerMethodRouteHandlers rh) ?sorted = Inr (map ?reg ?sorted)"
    by (rule forEach_throwing_all)
  with sort show ?thesis by (simp add: class_router_of_def)
qed

lemma sorted_typed_entries:
  "sorted_wrt (\<lambda>x y. sortRoutes (typed_entry x) (typed_entry y) \<le> 0)
     (array_sort (\<lambda>a b. sortRoutes (typed_entry a) (typed_entry b)) xs)"
proof (rule sorted_array_sort)
  fix a b :: "(jsval, 'a) route_entry"
  assume "0 < sortRoutes (typed_entry a) (typed_entry b)"
  then show "sortRoutes (typed_entry b) (typed_entry a) \<le> 0"
    by (simp add: sortRoutes_antisym[of "typed_entry a" "typed_entry b"])
next
  fix a b c :: "(jsval, 'a) route_entry"
  assume "sortRoutes (typed_entry a) (typed_entry b) \<le> 0"
    and "sortRoutes (typed_entry b) (typed_entry c) \<le> 0"
  then show "sortRoutes (typed_entry a) (typed_entry c) \<le> 0"
    by (rule sortRoutes_le_trans)
qed

lemma sortRoutes_any_before: "normalize_verb (verb (route y)) < normalize_verb (verb (route x)) \<Longrightarrow> sortRoutes_any x y = Inr (- 1)"
  by (simp add: sortRoutes_any_def Let_def)

lemma sortRoutes_any_after: "normalize_verb (verb (route x)) < normalize_verb (verb (route y)) \<Longrightarrow> sortRoutes_any x y = Inr 1"
  by (simp add: sortRoutes_any_def Let_def)

lemma sortRoutes_any_tie:
  "normalize_verb (verb (route x)) = normalize_verb (verb (route y)) \<Longrightarrow>
   sortRoutes_any x y =
     (if is_string (path (route x)) \<and> is_string (path (route y)) then Inr (sortRoutes (typed_entry x) (typed_entry y))
      else Inl TypeError)"
  by (simp add: sortRoutes_any_def Let_def)

lemma insert_throwing_sorted:
  assumes "sorted_wrt (\<lambda>a b. normalize_verb (verb (route b)) \<le> normalize_verb (verb (route a))) ys"
    and "array_insert_throwing sortRoutes_any x ys = Inr zs"
  shows "sorted_wrt (\<lambda>a b. normalize_verb (verb (route b)) \<le> normalize_verb (verb (route a))) zs \<and> set zs = insert x (set ys)"
  using assms
proof (induction ys arbitrary: zs)
  case Nil
  then show ?case by auto
next
  case (Cons y ys)
  show ?case
  proof (cases "sortRoutes_any x y")
    case (Inl e)
    with Cons.prems show ?thesis by simp
  next
    case (Inr c)
    show ?thesis
    proof (cases "c \<le> 0")
      case True
      with Inr Cons.prems have zs: "zs = x # y # ys" by simp
      have "normalize_verb (verb (route y)) \<le> normalize_verb (verb (route x))"
      proof (rule ccontr)
        assume "\<not> normalize_verb (verb (route y)) \<le> normalize_verb (verb (route x))"
        then have "normalize_verb (verb (route x)) < normalize_verb (verb (route y))" by simp
        with Inr have "c = 1" by (simp add: sortRoutes_any_after)
        with True show False by simp
      qed
      with Cons.prems(1) zs show ?thesis by (auto intro: order_trans)
    next
      case False
      with Inr Cons.prems obtain zs' where
        ins: "array_insert_throwing sortRoutes_any x ys = Inr zs'" and zs: "zs = y # zs'"
        by (auto split: sum.splits)
      from Cons.prems(1) have "sorted_wrt (\<lambda>a b. normalize_verb (verb (route b)) \<le> normalize_verb (verb (route a))) ys" by simp
      from Cons.IH[OF this ins] have IH: "sorted_wrt (\<lambda>a b. normalize_verb (verb (route b)) \<le> normalize_verb (verb (route a))) zs'" "set zs' = insert x (set ys)"
        by simp_all
      have "normalize_verb (verb (route x)) \<le> normalize_verb (verb (route y))"
      proof (rule ccontr)
        assume "\<not> normalize_verb (verb (route x)) \<le> normalize_verb (verb (route y))"
        then have "normalize_verb (verb (route y)) < normalize_verb (verb (route x))" by simp
        with Inr have "c = - 1" by (simp add: sortRoutes_any_before)
        with False show False by simp
      qed
      with IH Cons.prems(1) zs show ?thesis by auto
    qed
  qed
qed

lemma sort_throwing_sorted:
  "array_sort_throwing sortRoutes_any xs = Inr ys \<Longrightarrow>
   sorted_wrt (\<lambda>a b. normalize_verb (verb (route b)) \<le> normalize_verb (verb (route a))) ys \<and> set ys = set xs"
proof (induction xs arbitrary: ys)
  case Nil
  then show ?case by simp
next
  case (Cons x xs)
  then obtain ys' where s: "array_sort_throwing sortRoutes_any xs = Inr ys'"
    and i: "array_insert_throwing sortRoutes_any x ys' = Inr ys"
    by (auto split: sum.splits)
  from Cons.IH[OF s] insert_throwing_sorted[OF _ i] show ?case by auto
qed

lemma insert_throwing_meets_class:
  assumes "sorted_wrt (\<lambda>a b. normalize_verb (verb (route b)) \<le> normalize_verb (verb (route a))) ys"
    and "array_insert_throwing sortRoutes_any x ys = Inr zs"
    and "y \<in> set ys" and "normalize_verb (verb (route x)) = normalize_verb (verb (route y))"
  shows "is_string (path (route x)) \<and> (\<exists>f \<in> set ys. normalize_verb (verb (route f)) = normalize_verb (verb (route x)) \<and> is_string (path (route f)))"
  using assms
proof (induction ys arbitrary: zs)
  case Nil
  then show ?case by simp
next
  case (Cons z ys)
  show ?case
  proof (cases "normalize_verb (verb (route z)) = normalize_verb (verb (route x))")
    case True
    then have "sortRoutes_any x z =
                 (if is_string (path (route x)) \<and> is_string (path (route z)) then Inr (sortRoutes (typed_entry x) (typed_entry z))
                  else Inl TypeError)"
      by (simp add: sortRoutes_any_tie)
    with Cons.prems(2) have "is_string (path (route x)) \<and> is_string (path (route z))"
      by (cases "is_string (path (route x)) \<and> is_string (path (route z))") simp_all
    with True show ?thesis by auto
  next
    case False
    with Cons.prems(3,4) have y: "y \<in> set ys" by auto
    have "normalize_verb (verb (route x)) < normalize_verb (verb (route z))"
    proof (rule ccontr)
      assume "\<not> normalize_verb (verb (route x)) < normalize_verb (verb (route z))"
      with False have "normalize_verb (verb (route z)) < normalize_verb (verb (route x))" by auto
      moreover from Cons.prems(1) y have "normalize_verb (verb (route y)) \<le> normalize_verb (verb (route z))" by auto
      ultimately show False using Cons.prems(4) by simp
    qed
    then have "sortRoutes_any x z = Inr 1" by (rule sortRoutes_any_after)
    with Cons.prems(2) obtain zs' where "array_insert_throwing sortRoutes_any x ys = Inr zs'"
      by (auto split: sum.splits)
    from Cons.IH[OF _ this y Cons.prems(4)] Cons.prems(1) show ?thesis by auto
  qed
qed

lemma insert_throwing_total:
  assumes "\<forall>y \<in> set ys. normalize_verb (verb (route x)) = normalize_verb (verb (route y)) \<longrightarrow> is_string (path (route x)) \<and> is_string (path (route y))"
  shows "\<exists>zs. array_insert_throwing sortRoutes_any x ys = Inr zs"
  using assms
proof (induction ys)
  case Nil
  show ?case by simp
next
  case (Cons y ys)
  then obtain zs where "array_insert_throwing sortRoutes_any x ys = Inr zs" by auto
  moreover have "\<exists>c. sortRoutes_any x y = Inr c"
  proof (cases "normalize_verb (verb (route x)) = normalize_verb (verb (route y))")
    case True
    with Cons.prems show ?thesis by (simp add: sortRoutes_any_tie)
  next
    case False
    then have "normalize_verb (verb (route y)) < normalize_verb (verb (route x)) \<or> normalize_verb (verb (route x)) < normalize_verb (verb (route y))" by auto
    then show ?thesis by (auto simp: sortRoutes_any_before sortRoutes_any_after)
  qed
  then obtain c where "sortRoutes_any x y = Inr c" by blast
  ultimately show ?case by simp
qed

lemma no_tie_class_strings:
  assumes "\<not> tied_with_bad_path xs" and "a \<in> set xs" and "b \<in> set xs" and "normalize_verb (verb (route a)) = normalize_verb (verb (route b))"
    and "a \<noteq> b"
  shows "is_string (path (route a)) \<and> is_string (path (route b))"
  using assms
proof (induction xs)
  case Nil
  then show ?case by simp
next
  case (Cons x xs)
  then show ?case by (auto simp: list_ex_iff)
qed

lemma array_sort_throwing_iff:
  "(array_sort_throwing sortRoutes_any xs = Inl TypeError) = tied_with_bad_path xs"
proof -
  have ok: "\<not> tied_with_bad_path xs \<Longrightarrow> \<exists>ys. array_sort_throwing sortRoutes_any xs = Inr ys"
  proof (induction xs)
    case Nil
    show ?case by simp
  next
    case (Cons x xs)
    then obtain ys where s: "array_sort_throwing sortRoutes_any xs = Inr ys" by auto
    from sort_throwing_sorted[OF s] have set: "set ys = set xs" by simp
    from Cons.prems have "\<forall>y \<in> set ys. normalize_verb (verb (route x)) = normalize_verb (verb (route y)) \<longrightarrow> is_string (path (route x)) \<and> is_string (path (route y))"
      by (auto simp: set list_ex_iff)
    from insert_throwing_total[OF this] s show ?case by simp
  qed
  have bad: "array_sort_throwing sortRoutes_any xs = Inr ys \<Longrightarrow> \<not> tied_with_bad_path xs" for ys
  proof (induction xs arbitrary: ys)
    case Nil
    show ?case by simp
  next
    case (Cons x xs)
    then obtain ys' where s: "array_sort_throwing sortRoutes_any xs = Inr ys'"
      and i: "array_insert_throwing sortRoutes_any x ys' = Inr ys"
      by (auto split: sum.splits)
    from Cons.IH[OF s] have nt: "\<not> tied_with_bad_path xs" .
    from sort_throwing_sorted[OF s] have sorted: "sorted_wrt (\<lambda>a b. normalize_verb (verb (route b)) \<le> normalize_verb (verb (route a))) ys'"
      and set: "set ys' = set xs" by simp_all
    have "is_string (path (route x)) \<and> is_string (path (route y))" if y: "y \<in> set xs" and tie: "normalize_verb (verb (route x)) = normalize_verb (verb (route y))" for y
    proof -
      from insert_throwing_meets_class[OF sorted i _ tie] y set
      obtain f where f: "is_string (path (route x))" "f \<in> set xs" "normalize_verb (verb (route f)) = normalize_verb (verb (route x))" "is_string (path (route f))" by auto
      show ?thesis
      proof (cases "f = y")
        case True
        with f show ?thesis by simp
      next
        case False
        with no_tie_class_strings[OF nt f(2) y] f(3) tie have "is_string (path (route y))" by simp
        with f(1) show ?thesis by simp
      qed
    qed
    with nt show ?case by (auto simp: list_ex_iff)
  qed
  show ?thesis
  proof (cases "array_sort_throwing sortRoutes_any xs")
    case (Inl e)
    then have "e = TypeError" by (rule array_sort_throwing_error)
    with Inl ok show ?thesis by auto
  next
    case (Inr ys)
    with bad show ?thesis by auto
  qed
qed

text \<open>
  Claim C9, as stated, fails: with the option \<^verbatim>\<open>cors\<close> present and \<^verbatim>\<open>false\<close>,
  \<^verbatim>\<open>createHandler\<close> does not throw.
\<close>

theorem createHandler_accepts_cors_false:
  "createHandler (\<lambda>v. True) (Some \<lparr>cors = JBool False, urlencoded = JUndefined\<rparr>)
     ([] :: (jsval, unit) rest_class list) = Inr []"
  by (simp add: createHandler_def truthy_def)

text \<open>
  Claim C9, amended. \<^verbatim>\<open>createHandler\<close> throws its configuration error, before any
  router is built, exactly when the remotes options hold a value of \<^verbatim>\<open>cors\<close> that
  is neither \<^verbatim>\<open>undefined\<close> nor \<^verbatim>\<open>false\<close>. When \<^verbatim>\<open>cors\<close> is absent,
  \<^verbatim>\<open>undefined\<close> or \<^verbatim>\<open>false\<close>, no such error is thrown and the construction
  proceeds to the routers of the classes; it completes, with one router per class
  holding the registrations of the class in the order of \<^verbatim>\<open>sortRoutes\<close>
  (\<^verbatim>\<open>del\<close> registered as \<^verbatim>\<open>delete\<close>), when the option \<^verbatim>\<open>urlencoded\<close> is falsy
  or an object and every route has a string path and a verb that the router has a
  method for.
\<close>

theorem createHandler_throws_on_cors:
  "(createHandler rh remotes_opts classes = Inl ConfigError)
     = (\<exists>opts. remotes_opts = Some opts \<and> cors opts \<noteq> JUndefined \<and> cors opts \<noteq> JBool False)
   \<and> (remotes_opts = Some opts \<and> (cors opts = JUndefined \<or> cors opts = JBool False) \<longrightarrow>
        createHandler rh remotes_opts classes
          = (if truthy (urlencoded opts) \<and> urlencoded opts \<noteq> JObj then Inl TypeError
             else forEach_throwing (class_router_of rh) classes)
        \<and> createHandler rh remotes_opts classes \<noteq> Inl ConfigError)
   \<and> (remotes_opts = Some opts \<and> (cors opts = JUndefined \<or> cors opts = JBool False)
        \<and> (truthy (urlencoded opts) \<longrightarrow> urlencoded opts = JObj)
        \<and> (\<forall>c \<in> set classes. \<forall>m \<in> set (class_entries c).
               is_string (path (route m))
               \<and> rh (if verb (route m) = ''del'' then ''delete'' else verb (route m)))
      \<longrightarrow> (\<exists>routers. createHandler rh remotes_opts classes = Inr routers
             \<and> length routers = length classes
             \<and> (\<forall>i < length classes.
                   registered (routers ! i)
                     = map (\<lambda>m. \<lparr>route = \<lparr>verb = (if verb (route m) = ''del'' then ''delete''
                                                   else verb (route m)),
                                           path = path (route m)\<rparr>,
                                 entry_method = entry_method m\<rparr>)
                           (array_sort (\<lambda>a b. sortRoutes (typed_entry a) (typed_entry b))
                                       (class_entries (classes ! i)))
                   \<and> sorted_wrt (\<lambda>x y. sortRoutes (typed_entry x) (typed_entry y) \<le> 0)
                        (array_sort (\<lambda>a b. sortRoutes (typed_entry a) (typed_entry b))
                                    (class_entries (classes ! i)))
                   \<and> mounted_on (routers ! i) = map path (class_routes (classes ! i)))))"
proof (intro conjI impI)
  show "(createHandler rh remotes_opts classes = Inl ConfigError)
          = (\<exists>opts. remotes_opts = Some opts \<and> cors opts \<noteq> JUndefined \<and> cors opts \<noteq> JBool False)"
    by (cases remotes_opts)
       (auto simp: createHandler_def Let_def createHandler_no_config_error_later)
next
  assume "remotes_opts = Some opts \<and> (cors opts = JUndefined \<or> cors opts = JBool False)"
  then show passed: "createHandler rh remotes_opts classes
                       = (if truthy (urlencoded opts) \<and> urlencoded opts \<noteq> JObj then Inl TypeError
                          else forEach_throwing (class_router_of rh) classes)"
    by (auto simp: createHandler_def Let_def)
  show "createHandler rh remotes_opts classes \<noteq> Inl ConfigError"
    unfolding passed by (simp add: createHandler_no_config_error_later)
next
  let ?built = "\<lambda>c. \<lparr>registered =
                  map (\<lambda>m. \<lparr>route = \<lparr>verb = (if verb (route m) = ''del'' then ''delete''
                                              else verb (route m)),
                                      path = path (route m)\<rparr>,
                            entry_method = entry_method m\<rparr>)
                      (array_sort (\<lambda>a b. sortRoutes (typed_entry a) (typed_entry b))
                                  (class_entries c)),
                mounted_on = map path (class_routes c)\<rparr>"
  assume a: "remotes_opts = Some opts \<and> (cors opts = JUndefined \<or> cors opts = JBool False)
        \<and> (truthy (urlencoded opts) \<longrightarrow> urlencoded opts = JObj)
        \<and> (\<forall>c \<in> set classes. \<forall>m \<in> set (class_entries c).
               is_string (path (route m))
               \<and> rh (if verb (route m) = ''del'' then ''delete'' else verb (route m)))"
  then have "\<forall>c \<in> set classes. class_router_of rh c = Inr (?built c)"
    by (auto intro!: class_router_of_well_formed)
  then have "forEach_throwing (class_router_of rh) classes = Inr (map ?built classes)"
    by (rule forEach_throwing_all)
  with a have "createHandler rh remotes_opts classes = Inr (map ?built classes)"
    by (auto simp: createHandler_def Let_def)
  moreover have "length (map ?built classes) = length classes"
    by simp
  moreover have "\<forall>i < length classes.
                   registered (map ?built classes ! i)
                     = map (\<lambda>m. \<lparr>route = \<lparr>verb = (if verb (route m) = ''del'' then ''delete''
                                                   else verb (route m)),
                                           path = path (route m)\<rparr>,
                                 entry_method = entry_method m\<rparr>)
                           (array_sort (\<lambda>a b. sortRoutes (typed_entry a) (typed_entry b))
                                       (class_entries (classes ! i)))
                   \<and> sorted_wrt (\<lambda>x y. sortRoutes (typed_entry x) (typed_entry y) \<le> 0)
                        (array_sort (\<lambda>a b. sortRoutes (typed_entry a) (typed_entry b))
                                    (class_entries (classes ! i)))
                   \<and> mounted_on (map ?built classes ! i) = map path (class_routes (classes ! i))"
    by (simp add: sorted_typed_entries)
  ultimately show "\<exists>routers. createHandler rh remotes_opts classes = Inr routers
             \<and> length routers = length classes
             \<and> (\<forall>i < length classes.
                   registered (routers ! i)
                     = map (\<lambda>m. \<lparr>route = \<lparr>verb = (if verb (route m) = ''del'' then ''delete''
                                                   else verb (route m)),
                                           path = path (route m)\<rparr>,
                                 entry_method = entry_method m\<rparr>)
                           (array_sort (\<lambda>a b. sortRoutes (typed_entry a) (typed_entry b))
                                       (class_entries (classes ! i)))
                   \<and> sorted_wrt (\<lambda>x y. sortRoutes (typed_entry x) (typed_entry y) \<le> 0)
                        (array_sort (\<lambda>a b. sortRoutes (typed_entry a) (typed_entry b))
                                    (class_entries (classes ! i)))
                   \<and> mounted_on (routers ! i) = map path (class_routes (classes ! i)))"
    by blast
qed

theorem createHandler_throws_on_cors_witness:
  "createHandler (\<lambda>v. List.member [''get'', ''post'', ''put'', ''delete'', ''all''] v)
     (Some \<lparr>cors = JObj, urlencoded = JUndefined\<rparr>)
     [\<lparr>class_routes = [\<lparr>verb = ''all'', path = JStr ''/widgets''\<rparr>], ctor = None,
       methods = [\<lparr>fullName = ''Widget.prototype.remove'',
                   routes = [\<lparr>verb = ''del'', path = JStr ''/:id''\<rparr>],
                   sharedMethod = (1::nat)\<rparr>,
                  \<lparr>fullName = ''Widget.count'',
                   routes = [\<lparr>verb = ''get'', path = JStr ''/count''\<rparr>],
                   sharedMethod = 2\<rparr>]\<rparr>]
     = Inl ConfigError
   \<and> createHandler (\<lambda>v. List.member [''get'', ''post'', ''put'', ''delete'', ''all''] v)
       (Some \<lparr>cors = JBool False, urlencoded = JObj\<rparr>)
       [\<lparr>class_routes = [\<lparr>verb = ''all'', path = JStr ''/widgets''\<rparr>], ctor = None,
         methods = [\<lparr>fullName = ''Widget.prototype.remove'',
                     routes = [\<lparr>verb = ''del'', path = JStr ''/:id''\<rparr>],
                     sharedMethod = (1::nat)\<rparr>,
                    \<lparr>fullName = ''Widget.count'',
                     routes = [\<lparr>verb = ''get'', path = JStr ''/count''\<rparr>],
                     sharedMethod = 2\<rparr>]\<rparr>]
     \<noteq> Inl ConfigError
   \<and> (\<exists>routers.
         createHandler (\<lambda>v. List.member [''get'', ''post'', ''put'', ''delete'', ''all''] v)
           (Some \<lparr>cors = JUndefined, urlencoded = JUndefined\<rparr>)
           [\<lparr>class_routes = [\<lparr>verb = ''all'', path = JStr ''/widgets''\<rparr>], ctor = None,
             methods = [\<lparr>fullName = ''Widget.prototype.remove'',
                         routes = [\<lparr>verb = ''del'', path = JStr ''/:id''\<rparr>],
                         sharedMethod = (1::nat)\<rparr>,
                        \<lparr>fullName = ''Widget.count'',
                         routes = [\<lparr>verb = ''get'', path = JStr ''/count''\<rparr>],
                         sharedMethod = 2\<rparr>]\<rparr>]
         = Inr routers \<and> length routers = 1)"
proof (intro conjI)
  let ?rh = "\<lambda>v. List.member [''get'', ''post'', ''put'', ''delete'', ''all''] v"
  let ?widgets = "\<lparr>class_routes = [\<lparr>verb = ''all'', path = JStr ''/widgets''\<rparr>], ctor = None,
       methods = [\<lparr>fullName = ''Widget.prototype.remove'',
                   routes = [\<lparr>verb = ''del'', path = JStr ''/:id''\<rparr>],
                   sharedMethod = (1::nat)\<rparr>,
                  \<lparr>fullName = ''Widget.count'',
                   routes = [\<lparr>verb = ''get'', path = JStr ''/count''\<rparr>],
                   sharedMethod = 2\<rparr>]\<rparr>"
  from createHandler_throws_on_cors
         [where rh="?rh" and remotes_opts="Some \<lparr>cors = JObj, urlencoded = JUndefined\<rparr>" and classes="[?widgets]",
          THEN conjunct1]
  show "createHandler ?rh (Some \<lparr>cors = JObj, urlencoded = JUndefined\<rparr>) [?widgets] = Inl ConfigError"
    by simp
  have "createHandler ?rh (Some \<lparr>cors = JBool False, urlencoded = JObj\<rparr>) [?widgets]
          = (if truthy (urlencoded \<lparr>cors = JBool False, urlencoded = JObj\<rparr>)
                \<and> urlencoded \<lparr>cors = JBool False, urlencoded = JObj\<rparr> \<noteq> JObj
             then Inl TypeError
             else forEach_throwing (class_router_of ?rh) [?widgets])
        \<and> createHandler ?rh (Some \<lparr>cors = JBool False, urlencoded = JObj\<rparr>) [?widgets] \<noteq> Inl ConfigError"
    by (rule createHandler_throws_on_cors
         [where rh="?rh" and remotes_opts="Some \<lparr>cors = JBool False, urlencoded = JObj\<rparr>"
            and opts="\<lparr>cors = JBool False, urlencoded = JObj\<rparr>" and classes="[?widgets]",
          THEN conjunct2, THEN conjunct1, THEN mp]) simp
  then show "createHandler ?rh (Some \<lparr>cors = JBool False, urlencoded = JObj\<rparr>) [?widgets] \<noteq> Inl ConfigError"
    by (rule conjunct2)
  have wf: "Some \<lparr>cors = JUndefined, urlencoded = JUndefined\<rparr>
              = Some \<lparr>cors = JUndefined, urlencoded = JUndefined\<rparr>
            \<and> (cors \<lparr>cors = JUndefined, urlencoded = JUndefined\<rparr> = JUndefined
                \<or> cors \<lparr>cors = JUndefined, urlencoded = JUndefined\<rparr> = JBool False)
            \<and> (truthy (urlencoded \<lparr>cors = JUndefined, urlencoded = JUndefined\<rparr>)
                 \<longrightarrow> urlencoded \<lparr>cors = JUndefined, urlencoded = JUndefined\<rparr> = JObj)
            \<and> (\<forall>c \<in> set [?widgets]. \<forall>m \<in> set (class_entries c).
              is_string (path (route m))
              \<and> ?rh (if verb (route m) = ''del'' then ''delete'' else verb (route m)))"
    by (simp add: class_entries_def is_string_def truthy_def)
  from createHandler_throws_on_cors
         [where rh="?rh" and remotes_opts="Some \<lparr>cors = JUndefined, urlencoded = JUndefined\<rparr>"
            and opts="\<lparr>cors = JUndefined, urlencoded = JUndefined\<rparr>" and classes="[?widgets]",
          THEN conjunct2, THEN conjunct2, THEN mp, OF wf]
  obtain routers where
    "createHandler ?rh (Some \<lparr>cors = JUndefined, urlencoded = JUndefined\<rparr>) [?widgets] = Inr routers"
    "length routers = length [?widgets]"
    by blast
  then show "\<exists>routers. createHandler ?rh (Some \<lparr>cors = JUndefined, urlencoded = JUndefined\<rparr>) [?widgets] = Inr routers
                   \<and> length routers = 1"
    by simp
qed

text \<open>
  The other errors of the construction: options that are \<^verbatim>\<open>undefined\<close>, an
  option \<^verbatim>\<open>urlencoded\<close> that is a string, a verb the router has no method for,
  and two routes of one verb one of which has a path that is not a string.
\<close>

lemma createHandler_type_errors:
  "createHandler (\<lambda>v. List.member [''get'', ''post'', ''put'', ''delete'', ''all''] v) None
     ([] :: (jsval, unit) rest_class list) = Inl TypeError
   \<and> createHandler (\<lambda>v. List.member [''get'', ''post'', ''put'', ''delete'', ''all''] v)
       (Some \<lparr>cors = JUndefined, urlencoded = JStr ''extended''\<rparr>)
       ([] :: (jsval, unit) rest_class list) = Inl TypeError
   \<and> createHandler (\<lambda>v. List.member [''get'', ''post'', ''put'', ''delete'', ''all''] v)
       (Some \<lparr>cors = JUndefined, urlencoded = JUndefined\<rparr>)
       [\<lparr>class_routes = [\<lparr>verb = ''all'', path = JStr ''/widgets''\<rparr>], ctor = None,
         methods = [\<lparr>fullName = ''Widget.count'',
                     routes = [\<lparr>verb = ''foo'', path = JStr ''/count''\<rparr>],
                     sharedMethod = ()\<rparr>]\<rparr>] = Inl TypeError
   \<and> createHandler (\<lambda>v. List.member [''get'', ''post'', ''put'', ''delete'', ''all''] v)
       (Some \<lparr>cors = JUndefined, urlencoded = JUndefined\<rparr>)
       [\<lparr>class_routes = [\<lparr>verb = ''all'', path = JStr ''/widgets''\<rparr>], ctor = None,
         methods = [\<lparr>fullName = ''Widget.count'',
                     routes = [\<lparr>verb = ''get'', path = JUndefined\<rparr>,
                               \<lparr>verb = ''get'', path = JStr ''/count''\<rparr>],
                     sharedMethod = ()\<rparr>]\<rparr>] = Inl TypeError"
  by code_simp


end
